theory Spec2Isabelle
  imports Main "HOL-Library.Word"
begin

unbundle bit_operations_syntax

section \<open>Channel and call stacks: src/core/lib/channel/channel_stack.cc\<close>

subsection \<open>Addresses, sizes and the platform constants\<close>

text \<open>
  A \<open>char*\<close>, a \<open>uintptr_t\<close> and a \<open>size_t\<close> are 64-bit words: addition, subtraction and
  multiplication wrap around, as the unsigned arithmetic of the source does.
\<close>

type_synonym addr = "64 word"
type_synonym size_t = "64 word"

definition nullptr :: addr where
  "nullptr = 0"

text \<open>
  channel_stack.h and alloc.h are not part of the sources at hand, so the alignment and the
  four \<open>sizeof\<close> values that channel_stack.cc uses are parameters of every function below.
\<close>

record platform =
  GPR_MAX_ALIGNMENT :: size_t
  sizeof_grpc_channel_stack :: size_t
  sizeof_grpc_channel_element :: size_t
  sizeof_grpc_call_stack :: size_t
  sizeof_grpc_call_element :: size_t

text \<open>
  Modelled from the spec: the macro \<open>GPR_ROUND_UP_TO_ALIGNMENT_SIZE\<close> is declared in
  src/core/util/alloc.h, which is missing. The spec (section 3) describes it as rounding a size
  up to a fixed alignment boundary; for an alignment that is a power of two, which
  \<open>grpc_channel_stack_size\<close> checks, that is adding the alignment minus one and clearing
  the low bits.
\<close>

definition GPR_ROUND_UP_TO_ALIGNMENT_SIZE :: "platform \<Rightarrow> size_t \<Rightarrow> size_t" where
  "GPR_ROUND_UP_TO_ALIGNMENT_SIZE pf x =
     (x + GPR_MAX_ALIGNMENT pf - 1) AND NOT (GPR_MAX_ALIGNMENT pf - 1)"

subsection \<open>Filters, elements and the heap\<close>

text \<open>A \<open>grpc_error_handle\<close>: the default-constructed handle is the OK status.\<close>

datatype grpc_error_handle = OkStatus | Failed string

definition ok :: "grpc_error_handle \<Rightarrow> bool" where
  "ok e = (e = OkStatus)"

text \<open>
  \<open>ChannelArgs\<close> is opaque here except for the two object references which
  \<open>grpc_channel_stack_init\<close> takes out of it.
\<close>

record ChannelArgs =
  EventEngine_ref :: addr
  BaseNode_ref :: addr

record grpc_channel_element_args =
  channel_stack :: addr
  channel_args :: ChannelArgs
  is_first :: bool
  is_last :: bool
  blackboard :: addr

record grpc_call_element_args =
  call_stack :: addr
  server_transport_data :: addr

text \<open>
  A filter descriptor. The two entry points that report a status are functions of what the
  engine hands them (the element's address and the argument block); all entry points are
  foreign code, and each invocation is recorded in the trace of the state.
\<close>

record grpc_channel_filter =
  name :: string
  sizeof_call_data :: size_t
  sizeof_channel_data :: size_t
  init_channel_elem :: "addr \<Rightarrow> grpc_channel_element_args \<Rightarrow> grpc_error_handle"
  init_call_elem :: "addr \<Rightarrow> grpc_call_element_args \<Rightarrow> grpc_error_handle"

datatype stack_member = On_destroy | Event_engine | Stats_plugin_group | Channelz_data_source

datatype on_destroy_fn = Empty_lambda | Registered nat

record grpc_stream_refcount =
  refs :: int
  destroy_cb :: addr
  destroy_arg :: addr

text \<open>
  One event per call that leaves channel_stack.cc: the filter entry points (with the name of
  the filter whose entry point is called, the element address and the other arguments), the
  construction and destruction of the \<open>ManualConstructor\<close> members of a channel stack, and
  the invocation of its \<open>on_destroy\<close> callback.
\<close>

datatype event =
    Member_Init stack_member addr
  | Member_Destroy stack_member addr
  | On_destroy_invoked addr on_destroy_fn
  | Init_channel_elem string addr grpc_channel_element_args
  | Destroy_channel_elem string addr
  | Init_call_elem string addr grpc_call_element_args
  | Destroy_call_elem string addr addr addr
  | Start_transport_stream_op_batch string addr addr
  | Get_channel_info string addr addr
  | Start_transport_op string addr addr

text \<open>
  The memory is split by field: every field of \<open>grpc_channel_stack\<close>,
  \<open>grpc_channel_element\<close>, \<open>grpc_call_stack\<close> and \<open>grpc_call_element\<close> that the code
  reads or writes is a partial map from the address of the object to the field's value. A
  field that was never written has no value, and reading it is a fault.
\<close>

record state =
  channel_stack_count :: "addr \<rightharpoonup> size_t"
  channel_stack_call_stack_size :: "addr \<rightharpoonup> size_t"
  channel_stack_refcount :: "addr \<rightharpoonup> grpc_stream_refcount"
  channel_stack_on_destroy :: "addr \<rightharpoonup> on_destroy_fn"
  channel_elem_filter :: "addr \<rightharpoonup> grpc_channel_filter"
  channel_elem_channel_data :: "addr \<rightharpoonup> addr"
  call_stack_count :: "addr \<rightharpoonup> size_t"
  call_stack_refcount :: "addr \<rightharpoonup> grpc_stream_refcount"
  call_elem_filter :: "addr \<rightharpoonup> grpc_channel_filter"
  call_elem_channel_data :: "addr \<rightharpoonup> addr"
  call_elem_call_data :: "addr \<rightharpoonup> addr"
  trace :: "event list"

text \<open>
  What ends a run outside the normal error channel: a failed \<open>CHECK\<close> aborts the process,
  and a read of memory that holds no object is undefined behaviour.
\<close>

datatype fatal =
    CHECK_alignment_power_of_two
  | CHECK_user_data_after_stack
  | CHECK_layout_matches_size
  | Invalid_access addr

definition log_event :: "event \<Rightarrow> state \<Rightarrow> state" where
  "log_event e s = s\<lparr>trace := trace s @ [e]\<rparr>"

subsection \<open>Sizes and element addresses\<close>

text \<open>The loop of \<open>grpc_channel_stack_size\<close> that adds the size for each filter.\<close>

fun channel_stack_size_loop :: "platform \<Rightarrow> grpc_channel_filter list \<Rightarrow> size_t \<Rightarrow> size_t" where
  "channel_stack_size_loop pf [] size' = size'"
| "channel_stack_size_loop pf (f # fs) size' =
     channel_stack_size_loop pf fs
       (size' + GPR_ROUND_UP_TO_ALIGNMENT_SIZE pf (sizeof_channel_data f))"

definition grpc_channel_stack_size :: "platform \<Rightarrow> grpc_channel_filter list \<Rightarrow> fatal + size_t" where
  "grpc_channel_stack_size pf filters =
     (let filter_count = (of_nat (length filters) :: size_t);
          size' = GPR_ROUND_UP_TO_ALIGNMENT_SIZE pf (sizeof_grpc_channel_stack pf) +
                 GPR_ROUND_UP_TO_ALIGNMENT_SIZE pf (filter_count * sizeof_grpc_channel_element pf)
      in if GPR_MAX_ALIGNMENT pf AND (GPR_MAX_ALIGNMENT pf - 1) \<noteq> 0
         then Inl CHECK_alignment_power_of_two
         else Inr (channel_stack_size_loop pf filters size'))"

definition CHANNEL_ELEMS_FROM_STACK :: "platform \<Rightarrow> addr \<Rightarrow> addr" where
  "CHANNEL_ELEMS_FROM_STACK pf stk =
     stk + GPR_ROUND_UP_TO_ALIGNMENT_SIZE pf (sizeof_grpc_channel_stack pf)"

definition CALL_ELEMS_FROM_STACK :: "platform \<Rightarrow> addr \<Rightarrow> addr" where
  "CALL_ELEMS_FROM_STACK pf stk =
     stk + GPR_ROUND_UP_TO_ALIGNMENT_SIZE pf (sizeof_grpc_call_stack pf)"

text \<open>Adding an index to an element pointer moves it by that many elements.\<close>

definition grpc_channel_stack_element :: "platform \<Rightarrow> addr \<Rightarrow> size_t \<Rightarrow> addr" where
  "grpc_channel_stack_element pf stk index =
     CHANNEL_ELEMS_FROM_STACK pf stk + index * sizeof_grpc_channel_element pf"

definition grpc_call_stack_element :: "platform \<Rightarrow> addr \<Rightarrow> size_t \<Rightarrow> addr" where
  "grpc_call_stack_element pf stk index =
     CALL_ELEMS_FROM_STACK pf stk + index * sizeof_grpc_call_element pf"

definition grpc_channel_stack_from_top_element :: "platform \<Rightarrow> addr \<Rightarrow> addr" where
  "grpc_channel_stack_from_top_element pf elem =
     elem - GPR_ROUND_UP_TO_ALIGNMENT_SIZE pf (sizeof_grpc_channel_stack pf)"

definition grpc_call_stack_from_top_element :: "platform \<Rightarrow> addr \<Rightarrow> addr" where
  "grpc_call_stack_from_top_element pf elem =
     elem - GPR_ROUND_UP_TO_ALIGNMENT_SIZE pf (sizeof_grpc_call_stack pf)"

subsection \<open>Construction of a channel stack\<close>

text \<open>The argument block that the loop of \<open>grpc_channel_stack_init\<close> fills for filter \<open>i\<close>.\<close>

definition channel_element_args ::
  "ChannelArgs \<Rightarrow> addr \<Rightarrow> addr \<Rightarrow> size_t \<Rightarrow> size_t \<Rightarrow> grpc_channel_element_args" where
  "channel_element_args cargs bb stk filter_count i =
     \<lparr>channel_stack = stk, channel_args = cargs, is_first = (i = 0),
      is_last = (i = filter_count - 1), blackboard = bb\<rparr>"

text \<open>
  The loop "init per-filter data" of \<open>grpc_channel_stack_init\<close>, over the filters that are
  left, with the index \<open>i\<close> and the locals \<open>user_data\<close>, \<open>first_error\<close> and \<open>call_size\<close>.
\<close>

fun channel_init_loop ::
  "platform \<Rightarrow> ChannelArgs \<Rightarrow> addr \<Rightarrow> addr \<Rightarrow> size_t \<Rightarrow> addr \<Rightarrow> grpc_channel_filter list \<Rightarrow> size_t \<Rightarrow>
   addr \<times> grpc_error_handle \<times> size_t \<times> state \<Rightarrow> addr \<times> grpc_error_handle \<times> size_t \<times> state" where
  "channel_init_loop pf cargs bb stk filter_count elems [] i st = st"
| "channel_init_loop pf cargs bb stk filter_count elems (f # fs) i (user_data, first_error, call_size, s) =
     (let args = channel_element_args cargs bb stk filter_count i;
          elem = elems + i * sizeof_grpc_channel_element pf;
          s1 = s\<lparr>channel_elem_filter := (channel_elem_filter s)(elem \<mapsto> f)\<rparr>;
          s2 = s1\<lparr>channel_elem_channel_data := (channel_elem_channel_data s1)(elem \<mapsto> user_data)\<rparr>;
          error = init_channel_elem f elem args;
          s3 = log_event (Init_channel_elem (name f) elem args) s2;
          first_error' = (if \<not> ok error then (if ok first_error then error else first_error)
                          else first_error);
          user_data' = user_data + GPR_ROUND_UP_TO_ALIGNMENT_SIZE pf (sizeof_channel_data f);
          call_size' = call_size + GPR_ROUND_UP_TO_ALIGNMENT_SIZE pf (sizeof_call_data f)
      in channel_init_loop pf cargs bb stk filter_count elems fs (i + 1)
           (user_data', first_error', call_size', s3))"

definition grpc_channel_stack_init ::
  "platform \<Rightarrow> int \<Rightarrow> addr \<Rightarrow> addr \<Rightarrow> grpc_channel_filter list \<Rightarrow> ChannelArgs \<Rightarrow> addr \<Rightarrow> addr \<Rightarrow>
   state \<Rightarrow> fatal + (grpc_error_handle \<times> state)" where
  "grpc_channel_stack_init pf initial_refs destroy destroy_arg' filters cargs stk bb s =
     (let filter_count = (of_nat (length filters) :: size_t);
          s1 = s\<lparr>channel_stack_on_destroy := (channel_stack_on_destroy s)(stk \<mapsto> Empty_lambda)\<rparr>;
          s2 = log_event (Member_Init On_destroy stk) s1;
          s3 = log_event (Member_Init Event_engine stk) s2;
          s4 = log_event (Member_Init Stats_plugin_group stk) s3;
          call_size = GPR_ROUND_UP_TO_ALIGNMENT_SIZE pf (sizeof_grpc_call_stack pf) +
                      GPR_ROUND_UP_TO_ALIGNMENT_SIZE pf (filter_count * sizeof_grpc_call_element pf);
          s5 = s4\<lparr>channel_stack_count := (channel_stack_count s4)(stk \<mapsto> filter_count)\<rparr>;
          s6 = s5\<lparr>channel_stack_refcount := (channel_stack_refcount s5)
                    (stk \<mapsto> \<lparr>refs = initial_refs, destroy_cb = destroy, destroy_arg = destroy_arg'\<rparr>)\<rparr>;
          elems = CHANNEL_ELEMS_FROM_STACK pf stk;
          user_data = elems +
                      GPR_ROUND_UP_TO_ALIGNMENT_SIZE pf (filter_count * sizeof_grpc_channel_element pf)
      in case channel_init_loop pf cargs bb stk filter_count elems filters 0
                (user_data, OkStatus, call_size, s6) of
           (user_data', first_error, call_size', s7) \<Rightarrow>
             if \<not> (user_data' > stk) then Inl CHECK_user_data_after_stack
             else (case grpc_channel_stack_size pf filters of
                     Inl e \<Rightarrow> Inl e
                   | Inr size' \<Rightarrow>
                       if user_data' - stk \<noteq> size' then Inl CHECK_layout_matches_size
                       else
                         let s8 = s7\<lparr>channel_stack_call_stack_size :=
                                       (channel_stack_call_stack_size s7)(stk \<mapsto> call_size')\<rparr>;
                             s9 = log_event (Member_Init Channelz_data_source stk) s8
                         in Inr (first_error, s9)))"

subsection \<open>Destruction of a channel stack\<close>

text \<open>The loop "destroy per-filter data": \<open>k\<close> iterations are left, \<open>i\<close> is the index.\<close>

fun channel_destroy_loop :: "platform \<Rightarrow> addr \<Rightarrow> nat \<Rightarrow> size_t \<Rightarrow> state \<Rightarrow> fatal + state" where
  "channel_destroy_loop pf channel_elems 0 i s = Inr s"
| "channel_destroy_loop pf channel_elems (Suc k) i s =
     (let elem = channel_elems + i * sizeof_grpc_channel_element pf
      in case channel_elem_filter s elem of
           None \<Rightarrow> Inl (Invalid_access elem)
         | Some f \<Rightarrow>
             channel_destroy_loop pf channel_elems k (i + 1)
               (log_event (Destroy_channel_elem (name f) elem) s))"

definition grpc_channel_stack_destroy :: "platform \<Rightarrow> addr \<Rightarrow> state \<Rightarrow> fatal + state" where
  "grpc_channel_stack_destroy pf stk s =
     (let channel_elems = CHANNEL_ELEMS_FROM_STACK pf stk
      in case channel_stack_count s stk of
           None \<Rightarrow> Inl (Invalid_access stk)
         | Some count \<Rightarrow>
             (let s1 = log_event (Member_Destroy Channelz_data_source stk) s
              in (case channel_destroy_loop pf channel_elems (unat count) 0 s1 of
                    Inl e \<Rightarrow> Inl e
                  | Inr s2 \<Rightarrow>
                      (case channel_stack_on_destroy s2 stk of
                         None \<Rightarrow> Inl (Invalid_access stk)
                       | Some cb \<Rightarrow>
                           (let s3 = log_event (On_destroy_invoked stk cb) s2;
                                s4 = log_event (Member_Destroy On_destroy stk)
                                       (s3\<lparr>channel_stack_on_destroy :=
                                             (channel_stack_on_destroy s3)(stk := None)\<rparr>);
                                s5 = log_event (Member_Destroy Event_engine stk) s4;
                                s6 = log_event (Member_Destroy Stats_plugin_group stk) s5
                            in Inr s6)))))"

subsection \<open>Construction and destruction of a call stack\<close>

text \<open>
  The first loop of \<open>grpc_call_stack_init\<close>: it copies the filter and the channel data pointer
  of channel element \<open>i\<close> into call element \<open>i\<close> and gives it its call data region.
\<close>

fun call_wire_loop ::
  "platform \<Rightarrow> addr \<Rightarrow> addr \<Rightarrow> nat \<Rightarrow> size_t \<Rightarrow> addr \<times> state \<Rightarrow> fatal + (addr \<times> state)" where
  "call_wire_loop pf channel_elems call_elems 0 i st = Inr st"
| "call_wire_loop pf channel_elems call_elems (Suc k) i (user_data, s) =
     (let ch = channel_elems + i * sizeof_grpc_channel_element pf;
          cl = call_elems + i * sizeof_grpc_call_element pf
      in case channel_elem_filter s ch of
           None \<Rightarrow> Inl (Invalid_access ch)
         | Some f \<Rightarrow>
             (case channel_elem_channel_data s ch of
                None \<Rightarrow> Inl (Invalid_access ch)
              | Some cd \<Rightarrow>
                  let s1 = s\<lparr>call_elem_filter := (call_elem_filter s)(cl \<mapsto> f)\<rparr>;
                      s2 = s1\<lparr>call_elem_channel_data := (call_elem_channel_data s1)(cl \<mapsto> cd)\<rparr>;
                      s3 = s2\<lparr>call_elem_call_data := (call_elem_call_data s2)(cl \<mapsto> user_data)\<rparr>;
                      user_data' = user_data + GPR_ROUND_UP_TO_ALIGNMENT_SIZE pf (sizeof_call_data f)
                  in call_wire_loop pf channel_elems call_elems k (i + 1) (user_data', s3)))"

text \<open>The second loop of \<open>grpc_call_stack_init\<close>: it calls the call-init of every element.\<close>

fun call_init_loop ::
  "platform \<Rightarrow> grpc_call_element_args \<Rightarrow> addr \<Rightarrow> nat \<Rightarrow> size_t \<Rightarrow> grpc_error_handle \<times> state \<Rightarrow>
   fatal + (grpc_error_handle \<times> state)" where
  "call_init_loop pf elem_args call_elems 0 i st = Inr st"
| "call_init_loop pf elem_args call_elems (Suc k) i (first_error, s) =
     (let cl = call_elems + i * sizeof_grpc_call_element pf
      in case call_elem_filter s cl of
           None \<Rightarrow> Inl (Invalid_access cl)
         | Some f \<Rightarrow>
             let error = init_call_elem f cl elem_args;
                 s1 = log_event (Init_call_elem (name f) cl elem_args) s;
                 first_error' = (if \<not> ok error then (if ok first_error then error else first_error)
                                 else first_error)
             in call_init_loop pf elem_args call_elems k (i + 1) (first_error', s1))"

definition grpc_call_stack_init ::
  "platform \<Rightarrow> addr \<Rightarrow> int \<Rightarrow> addr \<Rightarrow> addr \<Rightarrow> grpc_call_element_args \<Rightarrow> state \<Rightarrow>
   fatal + (grpc_error_handle \<times> state)" where
  "grpc_call_stack_init pf channel_stk initial_refs destroy destroy_arg' elem_args s =
     (let channel_elems = CHANNEL_ELEMS_FROM_STACK pf channel_stk
      in case channel_stack_count s channel_stk of
           None \<Rightarrow> Inl (Invalid_access channel_stk)
         | Some count \<Rightarrow>
             let s1 = s\<lparr>call_stack_count := (call_stack_count s)(call_stack elem_args \<mapsto> count)\<rparr>;
                 s2 = s1\<lparr>call_stack_refcount := (call_stack_refcount s1)
                           (call_stack elem_args \<mapsto>
                              \<lparr>refs = initial_refs, destroy_cb = destroy, destroy_arg = destroy_arg'\<rparr>)\<rparr>;
                 call_elems = CALL_ELEMS_FROM_STACK pf (call_stack elem_args);
                 user_data = call_elems +
                             GPR_ROUND_UP_TO_ALIGNMENT_SIZE pf (count * sizeof_grpc_call_element pf)
             in (case call_wire_loop pf channel_elems call_elems (unat count) 0 (user_data, s2) of
                   Inl e \<Rightarrow> Inl e
                 | Inr (user_data', s3) \<Rightarrow>
                     call_init_loop pf elem_args call_elems (unat count) 0 (OkStatus, s3)))"

text \<open>The loop of \<open>grpc_call_stack_destroy\<close>.\<close>

fun call_destroy_loop ::
  "platform \<Rightarrow> addr \<Rightarrow> size_t \<Rightarrow> addr \<Rightarrow> addr \<Rightarrow> nat \<Rightarrow> size_t \<Rightarrow> state \<Rightarrow> fatal + state" where
  "call_destroy_loop pf elems count final_info then_schedule_closure 0 i s = Inr s"
| "call_destroy_loop pf elems count final_info then_schedule_closure (Suc k) i s =
     (let elem = elems + i * sizeof_grpc_call_element pf
      in case call_elem_filter s elem of
           None \<Rightarrow> Inl (Invalid_access elem)
         | Some f \<Rightarrow>
             call_destroy_loop pf elems count final_info then_schedule_closure k (i + 1)
               (log_event
                  (Destroy_call_elem (name f) elem final_info
                     (if i = count - 1 then then_schedule_closure else nullptr)) s))"

definition grpc_call_stack_destroy :: "platform \<Rightarrow> addr \<Rightarrow> addr \<Rightarrow> addr \<Rightarrow> state \<Rightarrow> fatal + state" where
  "grpc_call_stack_destroy pf stk final_info then_schedule_closure s =
     (let elems = CALL_ELEMS_FROM_STACK pf stk
      in case call_stack_count s stk of
           None \<Rightarrow> Inl (Invalid_access stk)
         | Some count \<Rightarrow>
             call_destroy_loop pf elems count final_info then_schedule_closure (unat count) 0 s)"

subsection \<open>Forwarding to the next element\<close>

definition grpc_call_next_op :: "platform \<Rightarrow> addr \<Rightarrow> addr \<Rightarrow> state \<Rightarrow> fatal + state" where
  "grpc_call_next_op pf elem op s =
     (let next_elem = elem + sizeof_grpc_call_element pf
      in case call_elem_filter s next_elem of
           None \<Rightarrow> Inl (Invalid_access next_elem)
         | Some f \<Rightarrow> Inr (log_event (Start_transport_stream_op_batch (name f) next_elem op) s))"

definition grpc_channel_next_get_info :: "platform \<Rightarrow> addr \<Rightarrow> addr \<Rightarrow> state \<Rightarrow> fatal + state" where
  "grpc_channel_next_get_info pf elem channel_info s =
     (let next_elem = elem + sizeof_grpc_channel_element pf
      in case channel_elem_filter s next_elem of
           None \<Rightarrow> Inl (Invalid_access next_elem)
         | Some f \<Rightarrow> Inr (log_event (Get_channel_info (name f) next_elem channel_info) s))"

definition grpc_channel_next_op :: "platform \<Rightarrow> addr \<Rightarrow> addr \<Rightarrow> state \<Rightarrow> fatal + state" where
  "grpc_channel_next_op pf elem op s =
     (let next_elem = elem + sizeof_grpc_channel_element pf
      in case channel_elem_filter s next_elem of
           None \<Rightarrow> Inl (Invalid_access next_elem)
         | Some f \<Rightarrow> Inr (log_event (Start_transport_op (name f) next_elem op) s))"

section \<open>HPACK table: src/core/ext/transport/chttp2/transport/hpack_parser_table.h\<close>

subsection \<open>Constants, mementos and the ring buffer\<close>

type_synonym uint32_t = "32 word"

text \<open>
  hpack_constants.h is not part of the sources at hand: the constants which the header uses
  are parameters. The spec (section 6) gives 61 for \<open>kLastStaticEntry\<close>.
\<close>

record hpack_constants =
  kLastStaticEntry :: uint32_t
  kInitialTableSize :: uint32_t
  kInitialTableEntries :: uint32_t
  kEntryOverhead :: uint32_t

text \<open>
  A memento holds a decoded header field. The parse status and its "used" bit play no part
  in what follows and are left out.
\<close>

record Memento =
  md_key :: string
  md_value :: string

definition empty_memento :: Memento where
  "empty_memento = \<lparr>md_key = [], md_value = []\<rparr>"

text \<open>
  Modelled from the spec: the byte cost of an entry (\<open>md.transport_size()\<close>, whose code is
  missing) is "field lengths plus fixed per-entry overhead" (section 4.2). It is a natural
  number here, so that no length makes it wrap around.
\<close>

definition transport_size :: "hpack_constants \<Rightarrow> Memento \<Rightarrow> nat" where
  "transport_size hc m = length (md_key m) + length (md_value m) + unat (kEntryOverhead hc)"

text \<open>
  Modelled from the spec: \<open>hpack_constants::EntriesForBytes\<close> is missing; the header
  describes \<open>max_entries_\<close> as the "maximum number of entries we could possibly fit in the
  table, given defined overheads", which for a table of \<open>bytes\<close> bytes is the quotient by the
  per-entry overhead.
\<close>

definition EntriesForBytes :: "hpack_constants \<Rightarrow> uint32_t \<Rightarrow> uint32_t" where
  "EntriesForBytes hc bytes = bytes div kEntryOverhead hc"

text \<open>
  The fields of \<open>MementoRingBuffer\<close>, without the timestamp and the stats collector. The
  backing vector is modelled with all \<open>max_entries\<close> slots present; a slot never written
  holds the empty memento.
\<close>

record MementoRingBuffer =
  first_entry :: uint32_t
  num_entries :: uint32_t
  max_entries :: uint32_t
  entries_vec :: "Memento list"

record HPackTable =
  mem_used :: uint32_t
  max_bytes :: uint32_t
  current_table_bytes :: uint32_t
  entries :: MementoRingBuffer
  static_mementos :: "nat \<Rightarrow> Memento"

text \<open>
  What ends a lookup or a mutation abnormally: an array access out of its bounds, and a call
  of \<open>Put\<close>, \<open>PopOne\<close> or \<open>Rebuild\<close> that breaks what the function requires.
\<close>

datatype hpack_fault =
    Out_of_bounds_access
  | Put_requires_space
  | PopOne_requires_entry
  | Rebuild_requires_space

text \<open>The default member initialisers of the header.\<close>

definition MementoRingBuffer_new :: "hpack_constants \<Rightarrow> MementoRingBuffer" where
  "MementoRingBuffer_new hc =
     \<lparr>first_entry = 0, num_entries = 0, max_entries = kInitialTableEntries hc,
      entries_vec = replicate (unat (kInitialTableEntries hc)) empty_memento\<rparr>"

definition HPackTable_new :: "hpack_constants \<Rightarrow> (nat \<Rightarrow> Memento) \<Rightarrow> HPackTable" where
  "HPackTable_new hc statics =
     \<lparr>mem_used = 0, max_bytes = kInitialTableSize hc,
      current_table_bytes = kInitialTableSize hc, entries = MementoRingBuffer_new hc,
      static_mementos = statics\<rparr>"

text \<open>
  Modelled from the spec: \<open>MementoRingBuffer::Lookup\<close> is declared in the header and
  defined in hpack_parser_table.cc, which is missing. Section 4.2: it "computes a dynamic
  offset and returns nullptr if out of the currently live range [first_entry,
  first_entry+num_entries), else the entry at (index_offset) mod max_entries"; section 3: the
  most recently added entry is the one closest to the boundary, that is index 0 is the logical
  position \<open>first_entry + num_entries - 1\<close>.
\<close>

definition MementoRingBuffer_Lookup ::
  "MementoRingBuffer \<Rightarrow> uint32_t \<Rightarrow> hpack_fault + Memento option" where
  "MementoRingBuffer_Lookup rb index =
     (let pos = int (unat (first_entry rb)) + int (unat (num_entries rb)) - 1 - int (unat index)
      in if \<not> (int (unat (first_entry rb)) \<le> pos \<and>
                pos < int (unat (first_entry rb)) + int (unat (num_entries rb)))
         then Inr None
         else
           let offset = nat pos mod unat (max_entries rb)
           in if offset < length (entries_vec rb) then Inr (Some (entries_vec rb ! offset))
              else Inl Out_of_bounds_access)"

text \<open>
  Modelled from the spec: \<open>MementoRingBuffer::Put\<close> (missing) "appends at the ring buffer's
  write position ((first_entry+num_entries) mod max_entries), growing num_entries" (section
  4.2); the header requires \<open>num_entries < max_entries\<close>.
\<close>

definition MementoRingBuffer_Put ::
  "MementoRingBuffer \<Rightarrow> Memento \<Rightarrow> hpack_fault + MementoRingBuffer" where
  "MementoRingBuffer_Put rb m =
     (if \<not> (num_entries rb < max_entries rb) then Inl Put_requires_space
      else
        let index = (unat (first_entry rb) + unat (num_entries rb)) mod unat (max_entries rb)
        in if index < length (entries_vec rb)
           then Inr (rb\<lparr>entries_vec := (entries_vec rb)[index := m],
                        num_entries := num_entries rb + 1\<rparr>)
           else Inl Out_of_bounds_access)"

text \<open>
  Modelled from the spec: \<open>MementoRingBuffer::PopOne\<close> (missing) pops the oldest memento,
  the one at the logical position \<open>first_entry\<close>, "advancing first_entry" (section 4.2); the
  header requires \<open>num_entries > 0\<close>.
\<close>

definition MementoRingBuffer_PopOne ::
  "MementoRingBuffer \<Rightarrow> hpack_fault + (Memento \<times> MementoRingBuffer)" where
  "MementoRingBuffer_PopOne rb =
     (if \<not> (num_entries rb > 0) then Inl PopOne_requires_entry
      else
        let index = unat (first_entry rb) mod unat (max_entries rb)
        in if index < length (entries_vec rb)
           then Inr (entries_vec rb ! index,
                     rb\<lparr>first_entry := first_entry rb + 1, num_entries := num_entries rb - 1\<rparr>)
           else Inl Out_of_bounds_access)"

text \<open>The live entries of a ring buffer in logical order, the oldest first.\<close>

definition live_entries :: "MementoRingBuffer \<Rightarrow> Memento list" where
  "live_entries rb =
     map (\<lambda>k. entries_vec rb ! ((unat (first_entry rb) + k) mod unat (max_entries rb)))
       [0..<unat (num_entries rb)]"


subsection \<open>Lookup\<close>

text \<open>
  \<open>HPackTable::LookupDynamic\<close> and \<open>HPackTable::Lookup\<close>, as the header defines them. The
  static mementos are an array of \<open>kLastStaticEntry\<close> elements; the index arithmetic is that
  of \<open>uint32_t\<close>.
\<close>

definition HPackTable_LookupDynamic ::
  "hpack_constants \<Rightarrow> HPackTable \<Rightarrow> uint32_t \<Rightarrow> hpack_fault + Memento option" where
  "HPackTable_LookupDynamic hc t index =
     (let tbl_index = index - (kLastStaticEntry hc + 1)
      in MementoRingBuffer_Lookup (entries t) tbl_index)"

definition HPackTable_Lookup ::
  "hpack_constants \<Rightarrow> HPackTable \<Rightarrow> uint32_t \<Rightarrow> hpack_fault + Memento option" where
  "HPackTable_Lookup hc t index =
     (if index \<le> kLastStaticEntry hc
      then (if unat (index - 1) < unat (kLastStaticEntry hc)
            then Inr (Some (static_mementos t (unat (index - 1))))
            else Inl Out_of_bounds_access)
      else HPackTable_LookupDynamic hc t index)"

definition HPackTable_num_entries :: "HPackTable \<Rightarrow> uint32_t" where
  "HPackTable_num_entries t = num_entries (entries t)"

subsection \<open>Mutation\<close>

text \<open>
  Modelled from the spec: \<open>HPackTable::EvictOne\<close> (missing) evicts the oldest entry
  (\<open>PopOne\<close>), "decrementing mem_used by its cost" (section 4.2).
\<close>

definition HPackTable_EvictOne :: "hpack_constants \<Rightarrow> HPackTable \<Rightarrow> hpack_fault + HPackTable" where
  "HPackTable_EvictOne hc t =
     (case MementoRingBuffer_PopOne (entries t) of
        Inl e \<Rightarrow> Inl e
      | Inr (first_entry', rb) \<Rightarrow>
          Inr (t\<lparr>entries := rb,
                 mem_used := mem_used t - of_nat (transport_size hc first_entry')\<rparr>))"

text \<open>
  The eviction loops of the mutators: while the condition holds, evict the oldest entry. Every
  eviction that succeeds lowers the number of entries, so the loop ends.
\<close>

function evict_while ::
  "hpack_constants \<Rightarrow> (HPackTable \<Rightarrow> bool) \<Rightarrow> HPackTable \<Rightarrow> hpack_fault + HPackTable" where
  "evict_while hc cond t =
     (if cond t
      then (case HPackTable_EvictOne hc t of
              Inl e \<Rightarrow> Inl e
            | Inr t' \<Rightarrow> evict_while hc cond t')
      else Inr t)"
  by pat_completeness auto
termination
proof (relation "measure (\<lambda>(hc, cond, t). unat (num_entries (entries t)))")
  show "wf (measure (\<lambda>(hc, cond, t). unat (num_entries (entries t))))" by simp
next
  fix hc :: hpack_constants and cond :: "HPackTable \<Rightarrow> bool" and t t' :: HPackTable
  assume "cond t" "HPackTable_EvictOne hc t = Inr t'"
  then show "((hc, cond, t'), (hc, cond, t)) \<in>
               measure (\<lambda>(hc, cond, t). unat (num_entries (entries t)))"
    by (auto simp: HPackTable_EvictOne_def MementoRingBuffer_PopOne_def Let_def
        unat_minus_one word_gt_0 unat_gt_0 split: if_splits sum.splits)
qed

text \<open>
  Modelled from the spec: \<open>HPackTable::AddLargerThanCurrentTableSize\<close> (missing): when the
  cost of a new entry alone exceeds \<open>current_table_bytes\<close>, "the table ends up empty and the
  insertion is recorded as not retained" (section 4.2).
\<close>

definition HPackTable_AddLargerThanCurrentTableSize ::
  "hpack_constants \<Rightarrow> HPackTable \<Rightarrow> hpack_fault + HPackTable" where
  "HPackTable_AddLargerThanCurrentTableSize hc t =
     evict_while hc (\<lambda>t. num_entries (entries t) \<noteq> 0) t"

text \<open>
  Modelled from the spec: \<open>HPackTable::Add\<close> (missing). Section 4.2: it "computes the entry's
  byte cost; while mem_used + cost > current_table_bytes, evicts the oldest entry"; an entry
  whose cost alone exceeds \<open>current_table_bytes\<close> empties the table and is not retained;
  otherwise, "after making room", the entry is appended, "growing num_entries, mem_used".
  The boolean tells whether the entry was retained.
\<close>

definition HPackTable_Add ::
  "hpack_constants \<Rightarrow> Memento \<Rightarrow> HPackTable \<Rightarrow> hpack_fault + (bool \<times> HPackTable)" where
  "HPackTable_Add hc md t =
     (let cost = transport_size hc md
      in if cost > unat (current_table_bytes t)
         then (case HPackTable_AddLargerThanCurrentTableSize hc t of
                 Inl e \<Rightarrow> Inl e
               | Inr t' \<Rightarrow> Inr (False, t'))
         else (case evict_while hc
                      (\<lambda>t. unat (mem_used t) + cost > unat (current_table_bytes t)) t of
                 Inl e \<Rightarrow> Inl e
               | Inr t1 \<Rightarrow>
                   (case MementoRingBuffer_Put (entries t1) md of
                      Inl e \<Rightarrow> Inl e
                    | Inr rb \<Rightarrow>
                        Inr (True, t1\<lparr>mem_used := mem_used t1 + of_nat cost,
                                       entries := rb\<rparr>))))"



subsection \<open>Sequences of mutations\<close>

datatype hpack_op =
    Op_Add Memento
  | Op_AddLargerThanCurrentTableSize
  | Op_SetMaxBytes uint32_t
  | Op_SetCurrentTableSize uint32_t



section \<open>Reference functions and example values\<close>

text \<open>The first status in a list that is not OK; OK when there is none.\<close>

fun first_failure :: "grpc_error_handle list \<Rightarrow> grpc_error_handle" where
  "first_failure [] = OkStatus"
| "first_failure (e # es) = (if ok e then first_failure es else e)"

text \<open>
  An array of \<open>n\<close> elements of a given size lies in the address space without wrapping
  around, so that its elements have \<open>n\<close> different addresses.
\<close>

definition array_fits :: "size_t \<Rightarrow> nat \<Rightarrow> bool" where
  "array_fits elem_size n \<longleftrightarrow> elem_size \<noteq> 0 \<and> n * unat elem_size < 2 ^ 64"

text \<open>A platform with 16-byte alignment and three filters, the second and third of which fail.\<close>

definition example_platform :: platform where
  "example_platform =
     \<lparr>GPR_MAX_ALIGNMENT = 16, sizeof_grpc_channel_stack = 200,
      sizeof_grpc_channel_element = 16, sizeof_grpc_call_stack = 72,
      sizeof_grpc_call_element = 24\<rparr>"

definition example_filter ::
  "string \<Rightarrow> size_t \<Rightarrow> size_t \<Rightarrow> grpc_error_handle \<Rightarrow> grpc_channel_filter" where
  "example_filter n call_sz channel_sz outcome =
     \<lparr>name = n, sizeof_call_data = call_sz, sizeof_channel_data = channel_sz,
      init_channel_elem = (\<lambda>elem args. outcome), init_call_elem = (\<lambda>elem args. outcome)\<rparr>"

definition example_filters :: "grpc_channel_filter list" where
  "example_filters =
     [example_filter ''a'' 8 40 OkStatus,
      example_filter ''b'' 24 1 (Failed ''b failed''),
      example_filter ''c'' 0 16 (Failed ''c failed'')]"

definition empty_state :: state where
  "empty_state =
     \<lparr>channel_stack_count = Map.empty, channel_stack_call_stack_size = Map.empty,
      channel_stack_refcount = Map.empty, channel_stack_on_destroy = Map.empty,
      channel_elem_filter = Map.empty, channel_elem_channel_data = Map.empty,
      call_stack_count = Map.empty, call_stack_refcount = Map.empty,
      call_elem_filter = Map.empty, call_elem_channel_data = Map.empty,
      call_elem_call_data = Map.empty, trace = []\<rparr>"

text \<open>
  Where the channel data and the call data of filter \<open>i\<close> start: after the header, after
  the element array, and after the rounded data of the filters before it.
\<close>

definition channel_data_region :: "platform \<Rightarrow> addr \<Rightarrow> grpc_channel_filter list \<Rightarrow> nat \<Rightarrow> addr" where
  "channel_data_region pf stk fs i =
     CHANNEL_ELEMS_FROM_STACK pf stk +
     GPR_ROUND_UP_TO_ALIGNMENT_SIZE pf (of_nat (length fs) * sizeof_grpc_channel_element pf) +
     sum_list (map (\<lambda>f. GPR_ROUND_UP_TO_ALIGNMENT_SIZE pf (sizeof_channel_data f)) (take i fs))"

definition call_data_region :: "platform \<Rightarrow> addr \<Rightarrow> grpc_channel_filter list \<Rightarrow> nat \<Rightarrow> addr" where
  "call_data_region pf stk fs i =
     CALL_ELEMS_FROM_STACK pf stk +
     GPR_ROUND_UP_TO_ALIGNMENT_SIZE pf (of_nat (length fs) * sizeof_grpc_call_element pf) +
     sum_list (map (\<lambda>f. GPR_ROUND_UP_TO_ALIGNMENT_SIZE pf (sizeof_call_data f)) (take i fs))"

text \<open>
  A channel stack with the filters \<open>fs\<close> and the channel data pointers \<open>cds\<close> is laid out
  at \<open>stk\<close> in the state \<open>s\<close>: its count is the number of filters, and element \<open>i\<close> holds
  filter \<open>i\<close> and pointer \<open>i\<close>.
\<close>

definition channel_stack_at ::
  "platform \<Rightarrow> state \<Rightarrow> addr \<Rightarrow> grpc_channel_filter list \<Rightarrow> addr list \<Rightarrow> bool" where
  "channel_stack_at pf s stk fs cds \<longleftrightarrow>
     length cds = length fs \<and> length fs < 2 ^ 64 \<and>
     channel_stack_count s stk = Some (of_nat (length fs)) \<and>
     (\<forall>i<length fs.
        channel_elem_filter s (grpc_channel_stack_element pf stk (of_nat i)) = Some (fs ! i) \<and>
        channel_elem_channel_data s (grpc_channel_stack_element pf stk (of_nat i)) =
          Some (cds ! i))"

text \<open>The same for a call stack, with the call data pointers \<open>cls\<close> as well.\<close>

definition call_stack_at ::
  "platform \<Rightarrow> state \<Rightarrow> addr \<Rightarrow> grpc_channel_filter list \<Rightarrow> addr list \<Rightarrow> addr list \<Rightarrow> bool" where
  "call_stack_at pf s stk fs cds cls \<longleftrightarrow>
     length cds = length fs \<and> length cls = length fs \<and> length fs < 2 ^ 64 \<and>
     call_stack_count s stk = Some (of_nat (length fs)) \<and>
     (\<forall>i<length fs.
        call_elem_filter s (grpc_call_stack_element pf stk (of_nat i)) = Some (fs ! i) \<and>
        call_elem_channel_data s (grpc_call_stack_element pf stk (of_nat i)) = Some (cds ! i) \<and>
        call_elem_call_data s (grpc_call_stack_element pf stk (of_nat i)) = Some (cls ! i))"

definition example_channel_args :: ChannelArgs where
  "example_channel_args = \<lparr>EventEngine_ref = 0, BaseNode_ref = 0\<rparr>"

definition example_call_args :: grpc_call_element_args where
  "example_call_args = \<lparr>call_stack = 8192, server_transport_data = 0\<rparr>"

subsection \<open>Reference functions and example values for the HPACK table\<close>

definition cost_sum :: "hpack_constants \<Rightarrow> Memento list \<Rightarrow> nat" where
  "cost_sum hc ms = sum_list (map (transport_size hc) ms)"

text \<open>
  Eviction on the list of live entries, the oldest first: drop entries from the front until
  the condition no longer holds (or none is left).
\<close>

fun evict_list :: "(Memento list \<Rightarrow> bool) \<Rightarrow> Memento list \<Rightarrow> Memento list" where
  "evict_list c [] = []"
| "evict_list c (m # ms) = (if c (m # ms) then evict_list c ms else m # ms)"

text \<open>
  The ring buffer is well formed: the backing array has \<open>max_entries\<close> slots, of which at
  most all are live.
\<close>

definition ring_wf :: "MementoRingBuffer \<Rightarrow> bool" where
  "ring_wf rb \<longleftrightarrow>
     length (entries_vec rb) = unat (max_entries rb) \<and>
     unat (num_entries rb) \<le> unat (max_entries rb)"

text \<open>
  The invariant of a table after at most \<open>n\<close> mutations: the ring buffer is well formed, the
  logical positions of its live entries are below \<open>n\<close>, \<open>mem_used\<close> is the cost of the live
  entries and is within \<open>current_table_bytes\<close>, and the capacity is that of
  \<open>current_table_bytes\<close> at least.
\<close>

definition table_inv :: "hpack_constants \<Rightarrow> nat \<Rightarrow> HPackTable \<Rightarrow> bool" where
  "table_inv hc n t \<longleftrightarrow>
     ring_wf (entries t) \<and>
     unat (first_entry (entries t)) + unat (num_entries (entries t)) \<le> n \<and>
     unat (mem_used t) = cost_sum hc (live_entries (entries t)) \<and>
     mem_used t \<le> current_table_bytes t \<and>
     unat (EntriesForBytes hc (current_table_bytes t)) \<le> unat (max_entries (entries t))"

text \<open>What the constants have to satisfy: a positive overhead, and an initial capacity for
  the initial table size.\<close>

definition constants_ok :: "hpack_constants \<Rightarrow> bool" where
  "constants_ok hc \<longleftrightarrow>
     kEntryOverhead hc \<noteq> 0 \<and>
     unat (EntriesForBytes hc (kInitialTableSize hc)) \<le> unat (kInitialTableEntries hc)"


text \<open>
  The live entries after one mutation, in terms of the live entries before it: what the
  mutation does when it evicts from the oldest entry on and then appends.
\<close>

fun live_after :: "hpack_constants \<Rightarrow> hpack_op \<Rightarrow> HPackTable \<Rightarrow> Memento list" where
  "live_after hc (Op_Add md) t =
     (if transport_size hc md > unat (current_table_bytes t) then []
      else evict_list (\<lambda>ms. cost_sum hc ms + transport_size hc md > unat (current_table_bytes t))
             (live_entries (entries t)) @ [md])"
| "live_after hc Op_AddLargerThanCurrentTableSize t = []"
| "live_after hc (Op_SetMaxBytes b) t =
     evict_list (\<lambda>ms. cost_sum hc ms > unat b) (live_entries (entries t))"
| "live_after hc (Op_SetCurrentTableSize b) t =
     (if b > max_bytes t then live_entries (entries t)
      else evict_list (\<lambda>ms. cost_sum hc ms > unat b) (live_entries (entries t)))"

definition example_hpack_constants :: hpack_constants where
  "example_hpack_constants =
     \<lparr>kLastStaticEntry = 61, kInitialTableSize = 4096, kInitialTableEntries = 128,
      kEntryOverhead = 32\<rparr>"

definition example_static_mementos :: "nat \<Rightarrow> Memento" where
  "example_static_mementos i = \<lparr>md_key = ''static'', md_value = replicate i (CHR ''s'')\<rparr>"

definition example_table :: HPackTable where
  "example_table = HPackTable_new example_hpack_constants example_static_mementos"

definition example_memento :: Memento where
  "example_memento = \<lparr>md_key = ''k'', md_value = ''v''\<rparr>"

section \<open>Properties of the channel and call stacks\<close>

subsection \<open>Sizes and layout\<close>

lemma GPR_ROUND_UP_TO_ALIGNMENT_SIZE_aligned:
  "GPR_ROUND_UP_TO_ALIGNMENT_SIZE pf x AND (GPR_MAX_ALIGNMENT pf - 1) = 0"
  by (simp add: GPR_ROUND_UP_TO_ALIGNMENT_SIZE_def and.assoc)

lemma channel_stack_size_loop_sum:
  "channel_stack_size_loop pf fs sz =
     sz + sum_list (map (\<lambda>f. GPR_ROUND_UP_TO_ALIGNMENT_SIZE pf (sizeof_channel_data f)) fs)"
  by (induction fs arbitrary: sz) (simp_all add: add.assoc)

lemma channel_init_loop_user_data:
  "fst (channel_init_loop pf cargs bb stk n elems fs i (ud, fe, cs, s)) =
     ud + sum_list (map (\<lambda>f. GPR_ROUND_UP_TO_ALIGNMENT_SIZE pf (sizeof_channel_data f)) fs)"
  by (induction fs arbitrary: i ud fe cs s) (simp_all add: Let_def add.assoc)

lemma channel_init_loop_call_size:
  "fst (snd (snd (channel_init_loop pf cargs bb stk n elems fs i (ud, fe, cs, s)))) =
     cs + sum_list (map (\<lambda>f. GPR_ROUND_UP_TO_ALIGNMENT_SIZE pf (sizeof_call_data f)) fs)"
  by (induction fs arbitrary: i ud fe cs s) (simp_all add: Let_def add.assoc)

lemma grpc_channel_stack_size_eq:
  assumes "GPR_MAX_ALIGNMENT pf AND (GPR_MAX_ALIGNMENT pf - 1) = 0"
  shows "grpc_channel_stack_size pf filters =
     Inr (GPR_ROUND_UP_TO_ALIGNMENT_SIZE pf (sizeof_grpc_channel_stack pf) +
          GPR_ROUND_UP_TO_ALIGNMENT_SIZE pf
            (of_nat (length filters) * sizeof_grpc_channel_element pf) +
          sum_list (map (\<lambda>f. GPR_ROUND_UP_TO_ALIGNMENT_SIZE pf (sizeof_channel_data f)) filters))"
  using assms by (simp add: grpc_channel_stack_size_def channel_stack_size_loop_sum)

lemma channel_init_offset_reached:
  "fst (channel_init_loop pf cargs bb stk n (CHANNEL_ELEMS_FROM_STACK pf stk) filters 0
          (CHANNEL_ELEMS_FROM_STACK pf stk +
             GPR_ROUND_UP_TO_ALIGNMENT_SIZE pf
               (of_nat (length filters) * sizeof_grpc_channel_element pf), fe, cs, s)) - stk =
     GPR_ROUND_UP_TO_ALIGNMENT_SIZE pf (sizeof_grpc_channel_stack pf) +
     GPR_ROUND_UP_TO_ALIGNMENT_SIZE pf
       (of_nat (length filters) * sizeof_grpc_channel_element pf) +
     sum_list (map (\<lambda>f. GPR_ROUND_UP_TO_ALIGNMENT_SIZE pf (sizeof_channel_data f)) filters)"
  by (simp add: channel_init_loop_user_data CHANNEL_ELEMS_FROM_STACK_def)




text \<open>
  C10. The element at index 0 and the stack are recovered from one another: both directions
  use the same rounded header size, for channel stacks and for call stacks.
\<close>

theorem stack_from_top_element_inverse:
  "grpc_channel_stack_from_top_element pf (grpc_channel_stack_element pf s 0) = s \<and>
   grpc_call_stack_from_top_element pf (grpc_call_stack_element pf s 0) = s"
  by (simp add: grpc_channel_stack_from_top_element_def grpc_channel_stack_element_def
      CHANNEL_ELEMS_FROM_STACK_def grpc_call_stack_from_top_element_def
      grpc_call_stack_element_def CALL_ELEMS_FROM_STACK_def)

subsection \<open>Element addresses\<close>

lemma unat_of_nat_index:
  assumes "array_fits sz n" "k < n"
  shows "unat ((of_nat k :: size_t) * sz) = k * unat sz"
proof -
  have sz: "0 < unat sz" using assms(1) by (simp add: array_fits_def unat_gt_0)
  have "k * unat sz \<le> n * unat sz" using assms(2) by (intro mult_le_mono1) simp
  moreover have "n * unat sz < 2 ^ 64" using assms(1) by (simp add: array_fits_def)
  ultimately have lt: "k * unat sz < 2 ^ 64" by (rule le_less_trans)
  have "k \<le> k * unat sz" using sz by simp
  from this lt have "k < 2 ^ 64" by (rule le_less_trans)
  then have "unat (of_nat k :: size_t) = k" by (simp add: unat_of_nat)
  then show ?thesis using lt by (simp add: unat_word_ariths)
qed

lemma elem_addr_inj:
  assumes "array_fits sz n" "i < n" "j < n"
    and eq: "base + of_nat i * sz = base + of_nat j * (sz :: size_t)"
  shows "i = j"
proof -
  have sz: "0 < unat sz" using assms(1) by (simp add: array_fits_def unat_gt_0)
  from eq have "(of_nat i :: size_t) * sz = of_nat j * sz" by simp
  then have "unat ((of_nat i :: size_t) * sz) = unat ((of_nat j :: size_t) * sz)" by simp
  then have "i * unat sz = j * unat sz"
    using unat_of_nat_index [OF assms(1)] assms(2,3) by simp
  then show ?thesis using sz by simp
qed

lemma array_fits_length: "array_fits sz n \<Longrightarrow> n < 2 ^ 64"
proof -
  assume a: "array_fits sz n"
  then have "0 < unat sz" by (simp add: array_fits_def unat_gt_0)
  then have "n \<le> n * unat sz" by simp
  moreover have "n * unat sz < 2 ^ 64" using a by (simp add: array_fits_def)
  ultimately show ?thesis by (rule le_less_trans)
qed

lemma array_fits_mono: "array_fits sz n \<Longrightarrow> m \<le> n \<Longrightarrow> array_fits sz m"
proof -
  assume a: "array_fits sz n" and m: "m \<le> n"
  have "m * unat sz \<le> n * unat sz" using m by (intro mult_le_mono1)
  moreover have "n * unat sz < 2 ^ 64" using a by (simp add: array_fits_def)
  ultimately have "m * unat sz < 2 ^ 64" by (rule le_less_trans)
  then show ?thesis using a by (simp add: array_fits_def)
qed

subsection \<open>The construction loop of a channel stack\<close>

lemma channel_init_loop_first_error:
  "fst (snd (channel_init_loop pf cargs bb stk n elems fs i (ud, fe, cs, s))) =
     (if ok fe
      then first_failure (map (\<lambda>k. init_channel_elem (fs ! k)
                 (elems + (i + of_nat k) * sizeof_grpc_channel_element pf)
                 (channel_element_args cargs bb stk n (i + of_nat k))) [0..<length fs])
      else fe)"
proof (induction fs arbitrary: i ud fe cs s)
  case Nil
  then show ?case by (simp add: ok_def)
next
  case (Cons f fs)
  show ?case
    by (simp add: Let_def Cons.IH map_upt_Suc add.assoc ok_def del: upt_Suc)
qed

lemma channel_init_loop_trace:
  "trace (snd (snd (snd (channel_init_loop pf cargs bb stk n elems fs i (ud, fe, cs, s))))) =
     trace s @ map (\<lambda>k. Init_channel_elem (name (fs ! k))
                 (elems + (i + of_nat k) * sizeof_grpc_channel_element pf)
                 (channel_element_args cargs bb stk n (i + of_nat k))) [0..<length fs]"
proof (induction fs arbitrary: i ud fe cs s)
  case Nil
  then show ?case by simp
next
  case (Cons f fs)
  show ?case
    by (simp add: Let_def Cons.IH map_upt_Suc add.assoc log_event_def del: upt_Suc)
qed

lemma channel_init_loop_frame:
  "channel_stack_count (snd (snd (snd (channel_init_loop pf cargs bb stk n elems fs i (ud, fe, cs, s))))) =
     channel_stack_count s \<and>
   channel_stack_on_destroy (snd (snd (snd (channel_init_loop pf cargs bb stk n elems fs i (ud, fe, cs, s))))) =
     channel_stack_on_destroy s \<and>
   channel_stack_call_stack_size (snd (snd (snd (channel_init_loop pf cargs bb stk n elems fs i (ud, fe, cs, s))))) =
     channel_stack_call_stack_size s"
  by (induction fs arbitrary: i ud fe cs s) (simp_all add: Let_def log_event_def)

lemma channel_init_loop_elems:
  assumes "array_fits (sizeof_grpc_channel_element pf) (i0 + length fs)" "j < i0 + length fs"
  shows "channel_elem_filter
           (snd (snd (snd (channel_init_loop pf cargs bb stk n elems fs (of_nat i0) (ud, fe, cs, s)))))
           (elems + of_nat j * sizeof_grpc_channel_element pf) =
         (if i0 \<le> j then Some (fs ! (j - i0))
          else channel_elem_filter s (elems + of_nat j * sizeof_grpc_channel_element pf)) \<and>
         channel_elem_channel_data
           (snd (snd (snd (channel_init_loop pf cargs bb stk n elems fs (of_nat i0) (ud, fe, cs, s)))))
           (elems + of_nat j * sizeof_grpc_channel_element pf) =
         (if i0 \<le> j
          then Some (ud + sum_list (map (\<lambda>f. GPR_ROUND_UP_TO_ALIGNMENT_SIZE pf (sizeof_channel_data f))
                                     (take (j - i0) fs)))
          else channel_elem_channel_data s (elems + of_nat j * sizeof_grpc_channel_element pf))"
  using assms
proof (induction fs arbitrary: i0 ud fe cs s)
  case Nil
  then show ?case by simp
next
  case (Cons f fs)
  let ?sz = "sizeof_grpc_channel_element pf"
  have fits: "array_fits ?sz (Suc i0 + length fs)" and j: "j < Suc i0 + length fs"
    using Cons.prems by simp_all
  have suc: "(of_nat i0 :: size_t) + 1 = of_nat (Suc i0)" by simp
  have addr: "(of_nat j :: size_t) * ?sz = of_nat i0 * ?sz \<longleftrightarrow> j = i0"
    using elem_addr_inj [OF fits j, of i0 0] by auto
  show ?case
  proof (cases "Suc i0 \<le> j")
    case True
    then have "j - i0 = Suc (j - Suc i0)" by simp
    with True show ?thesis
      by (simp add: Let_def suc Cons.IH [OF fits j] add.assoc del: of_nat_Suc)
  next
    case False
    then show ?thesis
      by (simp add: Let_def suc Cons.IH [OF fits j] log_event_def addr del: of_nat_Suc)
  qed
qed

lemma grpc_channel_stack_init_result:
  assumes size: "grpc_channel_stack_size pf filters = Inr sz"
    and region: "stk < stk + sz"
  shows "\<exists>s'. grpc_channel_stack_init pf initial_refs destroy darg filters cargs stk bb s =
            Inr (first_failure
                   (map (\<lambda>i. init_channel_elem (filters ! i)
                               (grpc_channel_stack_element pf stk (of_nat i))
                               (channel_element_args cargs bb stk (of_nat (length filters)) (of_nat i)))
                      [0..<length filters]), s') \<and>
          trace s' =
            trace s @
            [Member_Init On_destroy stk, Member_Init Event_engine stk,
             Member_Init Stats_plugin_group stk] @
            map (\<lambda>i. Init_channel_elem (name (filters ! i))
                        (grpc_channel_stack_element pf stk (of_nat i))
                        (channel_element_args cargs bb stk (of_nat (length filters)) (of_nat i)))
              [0..<length filters] @
            [Member_Init Channelz_data_source stk] \<and>
          channel_stack_on_destroy s' stk = Some Empty_lambda \<and>
          channel_stack_call_stack_size s' stk =
            Some (GPR_ROUND_UP_TO_ALIGNMENT_SIZE pf (sizeof_grpc_call_stack pf) +
                  GPR_ROUND_UP_TO_ALIGNMENT_SIZE pf
                    (of_nat (length filters) * sizeof_grpc_call_element pf) +
                  sum_list (map (\<lambda>f. GPR_ROUND_UP_TO_ALIGNMENT_SIZE pf (sizeof_call_data f))
                              filters)) \<and>
          (array_fits (sizeof_grpc_channel_element pf) (length filters) \<longrightarrow>
             channel_stack_at pf s' stk filters
               (map (channel_data_region pf stk filters) [0..<length filters]))"
proof -
  let ?n = "of_nat (length filters) :: size_t"
  let ?elems = "CHANNEL_ELEMS_FROM_STACK pf stk"
  let ?ud = "?elems + GPR_ROUND_UP_TO_ALIGNMENT_SIZE pf (?n * sizeof_grpc_channel_element pf)"
  let ?cs = "GPR_ROUND_UP_TO_ALIGNMENT_SIZE pf (sizeof_grpc_call_stack pf) +
             GPR_ROUND_UP_TO_ALIGNMENT_SIZE pf (?n * sizeof_grpc_call_element pf)"
  define s6 where "s6 =
    (log_event (Member_Init Stats_plugin_group stk)
      (log_event (Member_Init Event_engine stk)
        (log_event (Member_Init On_destroy stk)
          (s\<lparr>channel_stack_on_destroy := (channel_stack_on_destroy s)(stk \<mapsto> Empty_lambda)\<rparr>))))
     \<lparr>channel_stack_count :=
        (channel_stack_count s)(stk \<mapsto> ?n),
      channel_stack_refcount :=
        (channel_stack_refcount s)
        (stk \<mapsto> \<lparr>refs = initial_refs, destroy_cb = destroy, destroy_arg = darg\<rparr>)\<rparr>"
  have s6: "trace s6 = trace s @ [Member_Init On_destroy stk, Member_Init Event_engine stk,
                                  Member_Init Stats_plugin_group stk]"
      "channel_stack_count s6 stk = Some ?n"
      "channel_stack_on_destroy s6 stk = Some Empty_lambda"
    by (simp_all add: s6_def log_event_def)
  have pow2: "GPR_MAX_ALIGNMENT pf AND (GPR_MAX_ALIGNMENT pf - 1) = 0"
    using size by (auto simp: grpc_channel_stack_size_def Let_def split: if_splits)
  have init:
    "grpc_channel_stack_init pf initial_refs destroy darg filters cargs stk bb s =
       (case channel_init_loop pf cargs bb stk ?n ?elems filters 0 (?ud, OkStatus, ?cs, s6) of
          (user_data', first_error, call_size', s7) \<Rightarrow>
            if \<not> (user_data' > stk) then Inl CHECK_user_data_after_stack
            else (case grpc_channel_stack_size pf filters of
                    Inl e \<Rightarrow> Inl e
                  | Inr size' \<Rightarrow>
                      if user_data' - stk \<noteq> size' then Inl CHECK_layout_matches_size
                      else
                        let s8 = s7\<lparr>channel_stack_call_stack_size :=
                                      (channel_stack_call_stack_size s7)(stk \<mapsto> call_size')\<rparr>;
                            s9 = log_event (Member_Init Channelz_data_source stk) s8
                        in Inr (first_error, s9)))"
    by (simp add: grpc_channel_stack_init_def Let_def s6_def log_event_def)
  obtain ud' fe' cs' s7 where loop:
    "channel_init_loop pf cargs bb stk ?n ?elems filters 0 (?ud, OkStatus, ?cs, s6) =
       (ud', fe', cs', s7)"
    by (metis prod_cases4)
  have off: "ud' - stk = sz"
    using channel_init_offset_reached [of pf cargs bb stk ?n filters OkStatus ?cs s6] size
    by (simp add: loop grpc_channel_stack_size_eq [OF pow2])
  then have ud': "ud' = stk + sz" by (simp add: diff_eq_eq add.commute)
  have fe': "fe' = first_failure
                   (map (\<lambda>i. init_channel_elem (filters ! i)
                               (grpc_channel_stack_element pf stk (of_nat i))
                               (channel_element_args cargs bb stk ?n (of_nat i)))
                      [0..<length filters])"
    using channel_init_loop_first_error [of pf cargs bb stk ?n ?elems filters 0 ?ud OkStatus ?cs s6]
    by (simp add: loop ok_def grpc_channel_stack_element_def)
  have cs': "cs' = ?cs + sum_list (map (\<lambda>f. GPR_ROUND_UP_TO_ALIGNMENT_SIZE pf (sizeof_call_data f)) filters)"
    using channel_init_loop_call_size [of pf cargs bb stk ?n ?elems filters 0 ?ud OkStatus ?cs s6]
    by (simp add: loop)
  have tr: "trace s7 = trace s6 @
              map (\<lambda>i. Init_channel_elem (name (filters ! i))
                        (grpc_channel_stack_element pf stk (of_nat i))
                        (channel_element_args cargs bb stk ?n (of_nat i)))
              [0..<length filters]"
    using channel_init_loop_trace [of pf cargs bb stk ?n ?elems filters 0 ?ud OkStatus ?cs s6]
    by (simp add: loop grpc_channel_stack_element_def)
  have frame: "channel_stack_count s7 = channel_stack_count s6"
      "channel_stack_on_destroy s7 = channel_stack_on_destroy s6"
    using channel_init_loop_frame [of pf cargs bb stk ?n ?elems filters 0 ?ud OkStatus ?cs s6]
    by (simp_all add: loop)
  define s9 where "s9 = log_event (Member_Init Channelz_data_source stk)
      (s7\<lparr>channel_stack_call_stack_size := (channel_stack_call_stack_size s7)(stk \<mapsto> cs')\<rparr>)"
  have res: "grpc_channel_stack_init pf initial_refs destroy darg filters cargs stk bb s =
              Inr (fe', s9)"
    using region by (simp add: init loop ud' size s9_def Let_def)
  have at: "channel_stack_at pf s9 stk filters
              (map (channel_data_region pf stk filters) [0..<length filters])"
    if fits: "array_fits (sizeof_grpc_channel_element pf) (length filters)"
  proof -
    have len: "length filters < 2 ^ 64" using fits by (rule array_fits_length)
    have elems: "channel_elem_filter s9 (grpc_channel_stack_element pf stk (of_nat i)) =
                   Some (filters ! i) \<and>
                 channel_elem_channel_data s9 (grpc_channel_stack_element pf stk (of_nat i)) =
                   Some (channel_data_region pf stk filters i)"
      if i: "i < length filters" for i
      using channel_init_loop_elems [of pf 0 filters i cargs bb stk ?n ?elems ?ud OkStatus ?cs s6]
        fits i
      by (simp add: loop s9_def log_event_def grpc_channel_stack_element_def
          channel_data_region_def)
    show ?thesis
      using len elems
      by (simp add: channel_stack_at_def s9_def log_event_def frame s6)
  qed
  show ?thesis
    using res at
    by (intro exI [of _ s9])
      (simp add: fe' s9_def log_event_def tr s6 frame cs' add.assoc)
qed

subsection \<open>Loops that only call the filters\<close>

lemma channel_destroy_loop_result:
  assumes "\<forall>j. i0 \<le> j \<and> j < i0 + k \<longrightarrow>
             channel_elem_filter s (elems + of_nat j * sizeof_grpc_channel_element pf) = Some (fs ! j)"
  shows "channel_destroy_loop pf elems k (of_nat i0) s =
           Inr (s\<lparr>trace := trace s @
                  map (\<lambda>j. Destroy_channel_elem (name (fs ! j))
                              (elems + of_nat j * sizeof_grpc_channel_element pf))
                    [i0..<i0 + k]\<rparr>)"
  using assms
proof (induction k arbitrary: i0 s)
  case 0
  then show ?case by simp
next
  case (Suc k)
  have suc: "(of_nat i0 :: size_t) + 1 = of_nat (Suc i0)" by simp
  have here: "channel_elem_filter s (elems + of_nat i0 * sizeof_grpc_channel_element pf) =
                Some (fs ! i0)"
    using Suc.prems by simp
  have rest: "\<forall>j. Suc i0 \<le> j \<and> j < Suc i0 + k \<longrightarrow>
      channel_elem_filter
        (log_event (Destroy_channel_elem (name (fs ! i0))
                      (elems + of_nat i0 * sizeof_grpc_channel_element pf)) s)
        (elems + of_nat j * sizeof_grpc_channel_element pf) = Some (fs ! j)"
    using Suc.prems by (simp add: log_event_def)
  have "channel_destroy_loop pf elems (Suc k) (of_nat i0) s =
        channel_destroy_loop pf elems k (of_nat (Suc i0))
          (log_event (Destroy_channel_elem (name (fs ! i0))
                        (elems + of_nat i0 * sizeof_grpc_channel_element pf)) s)"
    by (simp add: Let_def here suc del: of_nat_Suc)
  also note Suc.IH [OF rest]
  finally show ?case
    by (simp add: upt_conv_Cons log_event_def del: of_nat_Suc upt_Suc)
qed

lemma call_init_loop_result:
  assumes "\<forall>j. i0 \<le> j \<and> j < i0 + k \<longrightarrow>
             call_elem_filter s (elems + of_nat j * sizeof_grpc_call_element pf) = Some (fs ! j)"
  shows "call_init_loop pf elem_args elems k (of_nat i0) (fe, s) =
           Inr (if ok fe
                then first_failure
                       (map (\<lambda>j. init_call_elem (fs ! j)
                                   (elems + of_nat j * sizeof_grpc_call_element pf) elem_args)
                          [i0..<i0 + k])
                else fe,
                s\<lparr>trace := trace s @
                  map (\<lambda>j. Init_call_elem (name (fs ! j))
                              (elems + of_nat j * sizeof_grpc_call_element pf) elem_args)
                    [i0..<i0 + k]\<rparr>)"
  using assms
proof (induction k arbitrary: i0 fe s)
  case 0
  then show ?case by (simp add: ok_def)
next
  case (Suc k)
  have suc: "(of_nat i0 :: size_t) + 1 = of_nat (Suc i0)" by simp
  have here: "call_elem_filter s (elems + of_nat i0 * sizeof_grpc_call_element pf) = Some (fs ! i0)"
    using Suc.prems by simp
  have rest: "\<forall>j. Suc i0 \<le> j \<and> j < Suc i0 + k \<longrightarrow>
      call_elem_filter
        (log_event (Init_call_elem (name (fs ! i0))
                      (elems + of_nat i0 * sizeof_grpc_call_element pf) elem_args) s)
        (elems + of_nat j * sizeof_grpc_call_element pf) = Some (fs ! j)"
    using Suc.prems by (simp add: log_event_def)
  let ?e = "init_call_elem (fs ! i0) (elems + of_nat i0 * sizeof_grpc_call_element pf) elem_args"
  let ?fe = "if \<not> ok ?e then (if ok fe then ?e else fe) else fe"
  have "call_init_loop pf elem_args elems (Suc k) (of_nat i0) (fe, s) =
        call_init_loop pf elem_args elems k (of_nat (Suc i0))
          (?fe, log_event (Init_call_elem (name (fs ! i0))
                        (elems + of_nat i0 * sizeof_grpc_call_element pf) elem_args) s)"
    by (simp add: Let_def here suc del: of_nat_Suc)
  also note Suc.IH [OF rest, of ?fe]
  finally show ?case
    by (simp add: upt_conv_Cons log_event_def ok_def del: of_nat_Suc upt_Suc)
qed

lemma call_destroy_loop_result:
  assumes "\<forall>j. i0 \<le> j \<and> j < i0 + k \<longrightarrow>
             call_elem_filter s (elems + of_nat j * sizeof_grpc_call_element pf) = Some (fs ! j)"
  shows "call_destroy_loop pf elems count final_info closure k (of_nat i0) s =
           Inr (s\<lparr>trace := trace s @
                  map (\<lambda>j. Destroy_call_elem (name (fs ! j))
                              (elems + of_nat j * sizeof_grpc_call_element pf) final_info
                              (if (of_nat j :: size_t) = count - 1 then closure else nullptr))
                    [i0..<i0 + k]\<rparr>)"
  using assms
proof (induction k arbitrary: i0 s)
  case 0
  then show ?case by simp
next
  case (Suc k)
  have suc: "(of_nat i0 :: size_t) + 1 = of_nat (Suc i0)" by simp
  have here: "call_elem_filter s (elems + of_nat i0 * sizeof_grpc_call_element pf) = Some (fs ! i0)"
    using Suc.prems by simp
  have rest: "\<forall>j. Suc i0 \<le> j \<and> j < Suc i0 + k \<longrightarrow>
      call_elem_filter
        (log_event (Destroy_call_elem (name (fs ! i0))
                      (elems + of_nat i0 * sizeof_grpc_call_element pf) final_info
                      (if (of_nat i0 :: size_t) = count - 1 then closure else nullptr)) s)
        (elems + of_nat j * sizeof_grpc_call_element pf) = Some (fs ! j)"
    using Suc.prems by (simp add: log_event_def)
  have "call_destroy_loop pf elems count final_info closure (Suc k) (of_nat i0) s =
        call_destroy_loop pf elems count final_info closure k (of_nat (Suc i0))
          (log_event (Destroy_call_elem (name (fs ! i0))
                      (elems + of_nat i0 * sizeof_grpc_call_element pf) final_info
                      (if (of_nat i0 :: size_t) = count - 1 then closure else nullptr)) s)"
    by (simp add: Let_def here suc del: of_nat_Suc)
  also note Suc.IH [OF rest]
  finally show ?case
    by (simp add: upt_conv_Cons log_event_def del: of_nat_Suc upt_Suc)
qed

subsection \<open>The wiring loop of a call stack\<close>

lemma call_wire_loop_result:
  assumes fits: "array_fits (sizeof_grpc_call_element pf) (i0 + k)"
    and src: "\<forall>j. i0 \<le> j \<and> j < i0 + k \<longrightarrow>
                channel_elem_filter s (che + of_nat j * sizeof_grpc_channel_element pf) =
                  Some (fs ! j) \<and>
                channel_elem_channel_data s (che + of_nat j * sizeof_grpc_channel_element pf) =
                  Some (cds ! j)"
  shows "\<exists>ud' s'. call_wire_loop pf che cle k (of_nat i0) (ud, s) = Inr (ud', s') \<and>
           trace s' = trace s \<and> call_stack_count s' = call_stack_count s \<and>
           (\<forall>j<i0 + k.
              call_elem_filter s' (cle + of_nat j * sizeof_grpc_call_element pf) =
                (if i0 \<le> j then Some (fs ! j)
                 else call_elem_filter s (cle + of_nat j * sizeof_grpc_call_element pf)) \<and>
              call_elem_channel_data s' (cle + of_nat j * sizeof_grpc_call_element pf) =
                (if i0 \<le> j then Some (cds ! j)
                 else call_elem_channel_data s (cle + of_nat j * sizeof_grpc_call_element pf)) \<and>
              call_elem_call_data s' (cle + of_nat j * sizeof_grpc_call_element pf) =
                (if i0 \<le> j
                 then Some (ud + sum_list (map (\<lambda>m. GPR_ROUND_UP_TO_ALIGNMENT_SIZE pf
                                                      (sizeof_call_data (fs ! m))) [i0..<j]))
                 else call_elem_call_data s (cle + of_nat j * sizeof_grpc_call_element pf)))"
  using assms
proof (induction k arbitrary: i0 ud s)
  case 0
  then show ?case by simp
next
  case (Suc k)
  let ?szl = "sizeof_grpc_call_element pf"
  let ?szc = "sizeof_grpc_channel_element pf"
  let ?cl = "cle + of_nat i0 * ?szl"
  let ?ud1 = "ud + GPR_ROUND_UP_TO_ALIGNMENT_SIZE pf (sizeof_call_data (fs ! i0))"
  define s3 where "s3 = s\<lparr>call_elem_filter := (call_elem_filter s)(?cl \<mapsto> fs ! i0),
                         call_elem_channel_data := (call_elem_channel_data s)(?cl \<mapsto> cds ! i0),
                         call_elem_call_data := (call_elem_call_data s)(?cl \<mapsto> ud)\<rparr>"
  have suc: "(of_nat i0 :: size_t) + 1 = of_nat (Suc i0)" by simp
  have fits': "array_fits ?szl (Suc i0 + k)" using Suc.prems(1) by simp
  have here: "channel_elem_filter s (che + of_nat i0 * ?szc) = Some (fs ! i0)"
      "channel_elem_channel_data s (che + of_nat i0 * ?szc) = Some (cds ! i0)"
    using Suc.prems(2) by simp_all
  have src': "\<forall>j. Suc i0 \<le> j \<and> j < Suc i0 + k \<longrightarrow>
                channel_elem_filter s3 (che + of_nat j * ?szc) = Some (fs ! j) \<and>
                channel_elem_channel_data s3 (che + of_nat j * ?szc) = Some (cds ! j)"
    using Suc.prems(2) by (simp add: s3_def)
  have step: "call_wire_loop pf che cle (Suc k) (of_nat i0) (ud, s) =
              call_wire_loop pf che cle k (of_nat (Suc i0)) (?ud1, s3)"
    by (simp add: Let_def here suc s3_def del: of_nat_Suc)
  from Suc.IH [OF fits' src', of ?ud1] obtain ud' s' where
    res: "call_wire_loop pf che cle k (of_nat (Suc i0)) (?ud1, s3) = Inr (ud', s')"
    and tr: "trace s' = trace s3" and cnt: "call_stack_count s' = call_stack_count s3"
    and elems: "\<forall>j<Suc i0 + k.
              call_elem_filter s' (cle + of_nat j * ?szl) =
                (if Suc i0 \<le> j then Some (fs ! j)
                 else call_elem_filter s3 (cle + of_nat j * ?szl)) \<and>
              call_elem_channel_data s' (cle + of_nat j * ?szl) =
                (if Suc i0 \<le> j then Some (cds ! j)
                 else call_elem_channel_data s3 (cle + of_nat j * ?szl)) \<and>
              call_elem_call_data s' (cle + of_nat j * ?szl) =
                (if Suc i0 \<le> j
                 then Some (?ud1 + sum_list (map (\<lambda>m. GPR_ROUND_UP_TO_ALIGNMENT_SIZE pf
                                                      (sizeof_call_data (fs ! m))) [Suc i0..<j]))
                 else call_elem_call_data s3 (cle + of_nat j * ?szl))"
    by blast
  have post: "call_elem_filter s' (cle + of_nat j * ?szl) =
                (if i0 \<le> j then Some (fs ! j)
                 else call_elem_filter s (cle + of_nat j * ?szl)) \<and>
              call_elem_channel_data s' (cle + of_nat j * ?szl) =
                (if i0 \<le> j then Some (cds ! j)
                 else call_elem_channel_data s (cle + of_nat j * ?szl)) \<and>
              call_elem_call_data s' (cle + of_nat j * ?szl) =
                (if i0 \<le> j
                 then Some (ud + sum_list (map (\<lambda>m. GPR_ROUND_UP_TO_ALIGNMENT_SIZE pf
                                                      (sizeof_call_data (fs ! m))) [i0..<j]))
                 else call_elem_call_data s (cle + of_nat j * ?szl))"
    if j: "j < i0 + Suc k" for j
  proof -
    have j': "j < Suc i0 + k" using j by simp
    have addr: "(of_nat j :: size_t) * ?szl = of_nat i0 * ?szl \<longleftrightarrow> j = i0"
      using elem_addr_inj [OF fits' j', of i0 0] by auto
    show ?thesis
    proof (cases "Suc i0 \<le> j")
      case True
      then have "[i0..<j] = i0 # [Suc i0..<j]" by (simp add: upt_conv_Cons)
      with True elems j' show ?thesis by (simp add: add.assoc)
    next
      case False
      show ?thesis
      proof (cases "j = i0")
        case True
        with elems j' show ?thesis by (simp add: s3_def)
      next
        case neq: False
        with False have "\<not> i0 \<le> j" by simp
        with False neq elems j' show ?thesis by (simp add: s3_def addr)
      qed
    qed
  qed
  have "trace s' = trace s" "call_stack_count s' = call_stack_count s"
    by (simp_all add: tr cnt s3_def)
  with post show ?case
    unfolding step res by (intro exI [of _ ud'] exI [of _ s']) simp
qed

subsection \<open>Whole operations on stacks that are laid out\<close>

lemma map_nth_upt_take:
  "j \<le> length fs \<Longrightarrow> map (\<lambda>m. g (fs ! m)) [0..<j] = map g (take j fs)"
  by (simp add: list_eq_iff_nth_eq)

lemma last_index_iff:
  assumes "n < 2 ^ 64" "i < n"
  shows "((of_nat i :: size_t) = of_nat n - 1) \<longleftrightarrow> Suc i = n"
proof -
  have "((of_nat i :: size_t) = of_nat n - 1) \<longleftrightarrow> (of_nat (Suc i) :: size_t) = of_nat n"
    by (simp add: eq_diff_eq add.commute)
  also have "\<dots> \<longleftrightarrow> unat (of_nat (Suc i) :: size_t) = unat (of_nat n :: size_t)"
    by (simp only: word_unat_eq_iff)
  also have "\<dots> \<longleftrightarrow> Suc i = n"
    using assms by (simp add: unat_of_nat del: of_nat_Suc)
  finally show ?thesis .
qed

lemma grpc_call_stack_init_result:
  assumes at: "channel_stack_at pf s chstk fs cds"
    and fits: "array_fits (sizeof_grpc_call_element pf) (length fs)"
  shows "\<exists>ud1 s1.
           call_wire_loop pf (CHANNEL_ELEMS_FROM_STACK pf chstk)
               (CALL_ELEMS_FROM_STACK pf (call_stack elem_args)) (length fs) 0
               (call_data_region pf (call_stack elem_args) fs 0,
                s\<lparr>call_stack_count := (call_stack_count s)
                      (call_stack elem_args \<mapsto> of_nat (length fs)),
                  call_stack_refcount := (call_stack_refcount s)
                      (call_stack elem_args \<mapsto>
                         \<lparr>refs = initial_refs, destroy_cb = destroy, destroy_arg = darg\<rparr>)\<rparr>) =
             Inr (ud1, s1) \<and>
           trace s1 = trace s \<and>
           call_stack_at pf s1 (call_stack elem_args) fs cds
             (map (call_data_region pf (call_stack elem_args) fs) [0..<length fs]) \<and>
           grpc_call_stack_init pf chstk initial_refs destroy darg elem_args s =
             Inr (first_failure
                    (map (\<lambda>i. init_call_elem (fs ! i)
                                (grpc_call_stack_element pf (call_stack elem_args) (of_nat i))
                                elem_args) [0..<length fs]),
                  s1\<lparr>trace := trace s1 @
                     map (\<lambda>i. Init_call_elem (name (fs ! i))
                                 (grpc_call_stack_element pf (call_stack elem_args) (of_nat i))
                                 elem_args) [0..<length fs]\<rparr>)"
proof -
  let ?n = "length fs"
  let ?cs = "call_stack elem_args"
  let ?che = "CHANNEL_ELEMS_FROM_STACK pf chstk"
  let ?cle = "CALL_ELEMS_FROM_STACK pf ?cs"
  let ?szl = "sizeof_grpc_call_element pf"
  define s2 where "s2 = s\<lparr>call_stack_count := (call_stack_count s)(?cs \<mapsto> of_nat ?n),
                  call_stack_refcount := (call_stack_refcount s)
                      (?cs \<mapsto> \<lparr>refs = initial_refs, destroy_cb = destroy, destroy_arg = darg\<rparr>)\<rparr>"
  have len: "?n < 2 ^ 64" and cnt: "channel_stack_count s chstk = Some (of_nat ?n)"
    and lcds: "length cds = ?n"
    using at by (simp_all add: channel_stack_at_def)
  have un: "unat (of_nat ?n :: size_t) = ?n" using len by (simp add: unat_of_nat)
  have src: "\<forall>j. 0 \<le> j \<and> j < 0 + ?n \<longrightarrow>
                channel_elem_filter s2 (?che + of_nat j * sizeof_grpc_channel_element pf) =
                  Some (fs ! j) \<and>
                channel_elem_channel_data s2 (?che + of_nat j * sizeof_grpc_channel_element pf) =
                  Some (cds ! j)"
    using at by (simp add: channel_stack_at_def s2_def grpc_channel_stack_element_def)
  have fits0: "array_fits ?szl (0 + ?n)" using fits by simp
  from call_wire_loop_result [OF fits0 src, of ?cle "call_data_region pf ?cs fs 0"]
  obtain ud1 s1 where
    wire: "call_wire_loop pf ?che ?cle ?n 0 (call_data_region pf ?cs fs 0, s2) = Inr (ud1, s1)"
    and tr: "trace s1 = trace s2" and cnt1: "call_stack_count s1 = call_stack_count s2"
    and elems: "\<forall>j<?n.
              call_elem_filter s1 (?cle + of_nat j * ?szl) = Some (fs ! j) \<and>
              call_elem_channel_data s1 (?cle + of_nat j * ?szl) = Some (cds ! j) \<and>
              call_elem_call_data s1 (?cle + of_nat j * ?szl) =
                Some (call_data_region pf ?cs fs 0 +
                      sum_list (map (\<lambda>m. GPR_ROUND_UP_TO_ALIGNMENT_SIZE pf
                                           (sizeof_call_data (fs ! m))) [0..<j]))"
    by auto
  have region: "call_data_region pf ?cs fs 0 +
                  sum_list (map (\<lambda>m. GPR_ROUND_UP_TO_ALIGNMENT_SIZE pf
                                       (sizeof_call_data (fs ! m))) [0..<j]) =
                call_data_region pf ?cs fs j" if "j < ?n" for j
    using that
      map_nth_upt_take [of j fs "\<lambda>f. GPR_ROUND_UP_TO_ALIGNMENT_SIZE pf (sizeof_call_data f)"]
    by (simp add: call_data_region_def)
  have at1: "call_stack_at pf s1 ?cs fs cds (map (call_data_region pf ?cs fs) [0..<?n])"
    using elems region len lcds
    by (simp add: call_stack_at_def cnt1 s2_def grpc_call_stack_element_def)
  have src2: "\<forall>j. 0 \<le> j \<and> j < 0 + ?n \<longrightarrow>
               call_elem_filter s1 (?cle + of_nat j * ?szl) = Some (fs ! j)"
    using elems by simp
  have ud0: "?cle + GPR_ROUND_UP_TO_ALIGNMENT_SIZE pf (of_nat ?n * ?szl) =
             call_data_region pf ?cs fs 0"
    by (simp add: call_data_region_def)
  have init: "grpc_call_stack_init pf chstk initial_refs destroy darg elem_args s =
                call_init_loop pf elem_args ?cle ?n 0 (OkStatus, s1)"
    by (simp add: grpc_call_stack_init_def Let_def cnt un ud0 s2_def [symmetric] wire)
  show ?thesis
    using call_init_loop_result [OF src2, where fe = OkStatus and elem_args = elem_args] wire tr at1
    by (intro exI [of _ ud1] exI [of _ s1])
      (simp add: init s2_def [symmetric] ok_def grpc_call_stack_element_def, simp add: s2_def)
qed

lemma grpc_channel_stack_destroy_result:
  assumes at: "channel_stack_at pf s stk fs cds"
    and cb: "channel_stack_on_destroy s stk = Some cb"
  shows "grpc_channel_stack_destroy pf stk s =
           Inr (s\<lparr>channel_stack_on_destroy := (channel_stack_on_destroy s)(stk := None),
                  trace := trace s @
                    [Member_Destroy Channelz_data_source stk] @
                    map (\<lambda>i. Destroy_channel_elem (name (fs ! i))
                                (grpc_channel_stack_element pf stk (of_nat i))) [0..<length fs] @
                    [On_destroy_invoked stk cb, Member_Destroy On_destroy stk,
                     Member_Destroy Event_engine stk, Member_Destroy Stats_plugin_group stk]\<rparr>)"
proof -
  let ?n = "length fs"
  let ?s1 = "log_event (Member_Destroy Channelz_data_source stk) s"
  have len: "?n < 2 ^ 64" and cnt: "channel_stack_count s stk = Some (of_nat ?n)"
    using at by (simp_all add: channel_stack_at_def)
  have un: "unat (of_nat ?n :: size_t) = ?n" using len by (simp add: unat_of_nat)
  have src: "\<forall>j. 0 \<le> j \<and> j < 0 + ?n \<longrightarrow>
               channel_elem_filter ?s1
                 (CHANNEL_ELEMS_FROM_STACK pf stk + of_nat j * sizeof_grpc_channel_element pf) =
               Some (fs ! j)"
    using at by (simp add: channel_stack_at_def log_event_def grpc_channel_stack_element_def)
  show ?thesis
    using channel_destroy_loop_result [OF src]
    by (simp add: grpc_channel_stack_destroy_def Let_def cnt un cb log_event_def
        grpc_channel_stack_element_def)
qed

lemma grpc_call_stack_destroy_result:
  assumes at: "call_stack_at pf s stk fs cds cls"
  shows "grpc_call_stack_destroy pf stk final_info closure s =
           Inr (s\<lparr>trace := trace s @
                    map (\<lambda>i. Destroy_call_elem (name (fs ! i))
                                (grpc_call_stack_element pf stk (of_nat i)) final_info
                                (if Suc i = length fs then closure else nullptr))
                      [0..<length fs]\<rparr>)"
proof -
  let ?n = "length fs"
  have len: "?n < 2 ^ 64" and cnt: "call_stack_count s stk = Some (of_nat ?n)"
    using at by (simp_all add: call_stack_at_def)
  have un: "unat (of_nat ?n :: size_t) = ?n" using len by (simp add: unat_of_nat)
  have src: "\<forall>j. 0 \<le> j \<and> j < 0 + ?n \<longrightarrow>
               call_elem_filter s
                 (CALL_ELEMS_FROM_STACK pf stk + of_nat j * sizeof_grpc_call_element pf) =
               Some (fs ! j)"
    using at by (simp add: call_stack_at_def grpc_call_stack_element_def)
  have ev: "map (\<lambda>j. Destroy_call_elem (name (fs ! j))
                   (CALL_ELEMS_FROM_STACK pf stk + of_nat j * sizeof_grpc_call_element pf)
                   final_info
                   (if (of_nat j :: size_t) = of_nat ?n - 1 then closure else nullptr)) [0..<?n] =
            map (\<lambda>i. Destroy_call_elem (name (fs ! i))
                   (grpc_call_stack_element pf stk (of_nat i)) final_info
                   (if Suc i = ?n then closure else nullptr)) [0..<?n]"
    using last_index_iff [OF len] by (simp add: grpc_call_stack_element_def)
  show ?thesis
    using call_destroy_loop_result [OF src, where count = "of_nat ?n" and final_info = final_info
        and closure = closure]
    by (simp add: grpc_call_stack_destroy_def Let_def cnt un ev)
qed

subsection \<open>The example stacks\<close>

lemma first_failure_all_ok: "list_all ok es \<Longrightarrow> first_failure es = OkStatus"
  by (induction es) simp_all

lemma first_failure_first:
  "list_all ok pre \<Longrightarrow> \<not> ok e \<Longrightarrow> first_failure (pre @ e # post) = e"
  by (induction pre) simp_all

lemma example_size: "grpc_channel_stack_size example_platform example_filters = Inr 336"
  by (simp add: grpc_channel_stack_size_def example_platform_def example_filters_def
      example_filter_def GPR_ROUND_UP_TO_ALIGNMENT_SIZE_def)

lemma example_channel_elements:
  "map (grpc_channel_stack_element example_platform 4096 \<circ> of_nat) [0..<3] = [4304, 4320, 4336]"
  by (simp add: grpc_channel_stack_element_def CHANNEL_ELEMS_FROM_STACK_def
      example_platform_def GPR_ROUND_UP_TO_ALIGNMENT_SIZE_def upt_rec)

lemma example_call_elements:
  "map (grpc_call_stack_element example_platform 8192 \<circ> of_nat) [0..<3] = [8272, 8296, 8320]"
  by (simp add: grpc_call_stack_element_def CALL_ELEMS_FROM_STACK_def
      example_platform_def GPR_ROUND_UP_TO_ALIGNMENT_SIZE_def upt_rec)

lemma example_channel_data:
  "map (channel_data_region example_platform 4096 example_filters) [0..<3] = [4352, 4400, 4416]"
  by (simp add: channel_data_region_def CHANNEL_ELEMS_FROM_STACK_def example_filters_def
      example_filter_def example_platform_def GPR_ROUND_UP_TO_ALIGNMENT_SIZE_def upt_rec)

lemma example_call_data:
  "map (call_data_region example_platform 8192 example_filters) [0..<3] = [8352, 8368, 8400]"
  by (simp add: call_data_region_def CALL_ELEMS_FROM_STACK_def example_filters_def
      example_filter_def example_platform_def GPR_ROUND_UP_TO_ALIGNMENT_SIZE_def upt_rec)

lemma example_array_fits:
  "array_fits (sizeof_grpc_channel_element example_platform) (length example_filters)"
  "array_fits (sizeof_grpc_call_element example_platform) (length example_filters)"
  by (simp_all add: array_fits_def example_platform_def example_filters_def)

lemma example_channel_stack:
  "\<exists>s. channel_stack_at example_platform s 4096 example_filters [4352, 4400, 4416] \<and>
       channel_stack_on_destroy s 4096 = Some Empty_lambda"
proof -
  have region: "(4096 :: addr) < 4096 + 336" by simp
  have len: "length example_filters = 3" by (simp add: example_filters_def)
  from grpc_channel_stack_init_result [OF example_size region, of 1 0 0 example_channel_args 0
      empty_state] example_array_fits(1)
  show ?thesis
    by (auto simp: len example_channel_data)
qed

lemma example_call_stack:
  "\<exists>s. call_stack_at example_platform s 8192 example_filters [4352, 4400, 4416]
         [8352, 8368, 8400]"
proof -
  obtain s where s: "channel_stack_at example_platform s 4096 example_filters [4352, 4400, 4416]"
    using example_channel_stack by blast
  have len: "length example_filters = 3" by (simp add: example_filters_def)
  have cs: "call_stack example_call_args = 8192" by (simp add: example_call_args_def)
  from grpc_call_stack_init_result [OF s example_array_fits(2), of example_call_args 1 0 0]
  show ?thesis
    by (auto simp: len cs example_call_data)
qed

subsection \<open>Construction runs every filter\<close>

text \<open>
  C2. \<open>grpc_channel_stack_init\<close>, on a region of the size that \<open>grpc_channel_stack_size\<close>
  gives, and \<open>grpc_call_stack_init\<close>, on a channel stack that is laid out, call the init
  entry point of every filter, in forward order, whatever the earlier ones returned: the trace
  grows by one init event per filter, in the order of the filters. Each returns the first
  status that is not OK (OK when there is none) together with the state in which the whole
  stack is laid out.
\<close>

theorem stack_init_runs_every_filter:
  "(grpc_channel_stack_size pf filters = Inr sz \<longrightarrow> stk < stk + sz \<longrightarrow>
      (\<exists>s'. grpc_channel_stack_init pf initial_refs destroy darg filters cargs stk bb s =
              Inr (first_failure
                     (map (\<lambda>i. init_channel_elem (filters ! i)
                                 (grpc_channel_stack_element pf stk (of_nat i))
                                 (channel_element_args cargs bb stk (of_nat (length filters))
                                    (of_nat i)))
                        [0..<length filters]), s') \<and>
            trace s' =
              trace s @
              [Member_Init On_destroy stk, Member_Init Event_engine stk,
               Member_Init Stats_plugin_group stk] @
              map (\<lambda>i. Init_channel_elem (name (filters ! i))
                          (grpc_channel_stack_element pf stk (of_nat i))
                          (channel_element_args cargs bb stk (of_nat (length filters)) (of_nat i)))
                [0..<length filters] @
              [Member_Init Channelz_data_source stk] \<and>
            (array_fits (sizeof_grpc_channel_element pf) (length filters) \<longrightarrow>
               channel_stack_at pf s' stk filters
                 (map (channel_data_region pf stk filters) [0..<length filters])))) \<and>
   (channel_stack_at pf t chstk fs cds \<longrightarrow>
    array_fits (sizeof_grpc_call_element pf) (length fs) \<longrightarrow>
      (\<exists>t'. grpc_call_stack_init pf chstk initial_refs destroy darg elem_args t =
              Inr (first_failure
                     (map (\<lambda>i. init_call_elem (fs ! i)
                                 (grpc_call_stack_element pf (call_stack elem_args) (of_nat i))
                                 elem_args) [0..<length fs]), t') \<and>
            trace t' =
              trace t @
              map (\<lambda>i. Init_call_elem (name (fs ! i))
                          (grpc_call_stack_element pf (call_stack elem_args) (of_nat i))
                          elem_args) [0..<length fs] \<and>
            call_stack_at pf t' (call_stack elem_args) fs cds
              (map (call_data_region pf (call_stack elem_args) fs) [0..<length fs])))"
proof (intro conjI impI)
  assume "grpc_channel_stack_size pf filters = Inr sz" "stk < stk + sz"
  from grpc_channel_stack_init_result [OF this, of initial_refs destroy darg cargs bb s]
  show "\<exists>s'. grpc_channel_stack_init pf initial_refs destroy darg filters cargs stk bb s =
              Inr (first_failure
                     (map (\<lambda>i. init_channel_elem (filters ! i)
                                 (grpc_channel_stack_element pf stk (of_nat i))
                                 (channel_element_args cargs bb stk (of_nat (length filters))
                                    (of_nat i)))
                        [0..<length filters]), s') \<and>
            trace s' =
              trace s @
              [Member_Init On_destroy stk, Member_Init Event_engine stk,
               Member_Init Stats_plugin_group stk] @
              map (\<lambda>i. Init_channel_elem (name (filters ! i))
                          (grpc_channel_stack_element pf stk (of_nat i))
                          (channel_element_args cargs bb stk (of_nat (length filters)) (of_nat i)))
                [0..<length filters] @
              [Member_Init Channelz_data_source stk] \<and>
            (array_fits (sizeof_grpc_channel_element pf) (length filters) \<longrightarrow>
               channel_stack_at pf s' stk filters
                 (map (channel_data_region pf stk filters) [0..<length filters]))"
    by blast
next
  assume "channel_stack_at pf t chstk fs cds"
    "array_fits (sizeof_grpc_call_element pf) (length fs)"
  from grpc_call_stack_init_result [OF this, of elem_args initial_refs destroy darg]
  obtain s1 where
    tr: "trace s1 = trace t"
    and at: "call_stack_at pf s1 (call_stack elem_args) fs cds
               (map (call_data_region pf (call_stack elem_args) fs) [0..<length fs])"
    and res: "grpc_call_stack_init pf chstk initial_refs destroy darg elem_args t =
             Inr (first_failure
                    (map (\<lambda>i. init_call_elem (fs ! i)
                                (grpc_call_stack_element pf (call_stack elem_args) (of_nat i))
                                elem_args) [0..<length fs]),
                  s1\<lparr>trace := trace s1 @
                     map (\<lambda>i. Init_call_elem (name (fs ! i))
                                 (grpc_call_stack_element pf (call_stack elem_args) (of_nat i))
                                 elem_args) [0..<length fs]\<rparr>)"
    by blast
  from at have "call_stack_at pf
      (s1\<lparr>trace := trace s1 @
           map (\<lambda>i. Init_call_elem (name (fs ! i))
                       (grpc_call_stack_element pf (call_stack elem_args) (of_nat i))
                       elem_args) [0..<length fs]\<rparr>)
      (call_stack elem_args) fs cds
      (map (call_data_region pf (call_stack elem_args) fs) [0..<length fs])"
    by (simp add: call_stack_at_def)
  with res tr
  show "\<exists>t'. grpc_call_stack_init pf chstk initial_refs destroy darg elem_args t =
              Inr (first_failure
                     (map (\<lambda>i. init_call_elem (fs ! i)
                                 (grpc_call_stack_element pf (call_stack elem_args) (of_nat i))
                                 elem_args) [0..<length fs]), t') \<and>
            trace t' =
              trace t @
              map (\<lambda>i. Init_call_elem (name (fs ! i))
                          (grpc_call_stack_element pf (call_stack elem_args) (of_nat i))
                          elem_args) [0..<length fs] \<and>
            call_stack_at pf t' (call_stack elem_args) fs cds
              (map (call_data_region pf (call_stack elem_args) fs) [0..<length fs])"
    by (intro exI [of _ "s1\<lparr>trace := trace s1 @
           map (\<lambda>i. Init_call_elem (name (fs ! i))
                       (grpc_call_stack_element pf (call_stack elem_args) (of_nat i))
                       elem_args) [0..<length fs]\<rparr>"]) simp
qed

theorem stack_init_runs_every_filter_witness:
  "grpc_channel_stack_size example_platform example_filters = Inr 336 \<and>
   (4096 :: addr) < 4096 + 336 \<and>
   array_fits (sizeof_grpc_channel_element example_platform) (length example_filters) \<and>
   array_fits (sizeof_grpc_call_element example_platform) (length example_filters) \<and>
   (\<exists>s'. grpc_channel_stack_init example_platform 1 0 0 example_filters example_channel_args
            4096 0 empty_state = Inr (Failed ''b failed'', s') \<and>
          trace s' =
            [Member_Init On_destroy 4096, Member_Init Event_engine 4096,
             Member_Init Stats_plugin_group 4096,
             Init_channel_elem ''a'' 4304 (channel_element_args example_channel_args 0 4096 3 0),
             Init_channel_elem ''b'' 4320 (channel_element_args example_channel_args 0 4096 3 1),
             Init_channel_elem ''c'' 4336 (channel_element_args example_channel_args 0 4096 3 2),
             Member_Init Channelz_data_source 4096] \<and>
          channel_stack_at example_platform s' 4096 example_filters [4352, 4400, 4416] \<and>
          (\<exists>t'. grpc_call_stack_init example_platform 4096 1 0 0 example_call_args s' =
                   Inr (Failed ''b failed'', t') \<and>
                 trace t' = trace s' @
                   [Init_call_elem ''a'' 8272 example_call_args,
                    Init_call_elem ''b'' 8296 example_call_args,
                    Init_call_elem ''c'' 8320 example_call_args]))"
proof -
  have region: "(4096 :: addr) < 4096 + 336" by simp
  have len: "length example_filters = 3" by (simp add: example_filters_def)
  have upt3: "[0..<3] = [0, 1, 2]" by (simp add: upt_rec)
  have cs: "call_stack example_call_args = 8192" by (simp add: example_call_args_def)
  have ch_elems: "grpc_channel_stack_element example_platform 4096 0 = 4304"
      "grpc_channel_stack_element example_platform 4096 1 = 4320"
      "grpc_channel_stack_element example_platform 4096 2 = 4336"
    using example_channel_elements by (simp_all add: upt3)
  have cl_elems: "grpc_call_stack_element example_platform 8192 0 = 8272"
      "grpc_call_stack_element example_platform 8192 1 = 8296"
      "grpc_call_stack_element example_platform 8192 2 = 8320"
    using example_call_elements by (simp_all add: upt3)
  have fs: "example_filters ! 0 = example_filter ''a'' 8 40 OkStatus"
      "example_filters ! Suc 0 = example_filter ''b'' 24 1 (Failed ''b failed'')"
      "example_filters ! 2 = example_filter ''c'' 0 16 (Failed ''c failed'')"
    by (simp_all add: example_filters_def)
  have outcomes: "first_failure
       (map (\<lambda>i. init_channel_elem (example_filters ! i)
                   (grpc_channel_stack_element example_platform 4096 (of_nat i))
                   (channel_element_args example_channel_args 0 4096
                      (of_nat (length example_filters)) (of_nat i)))
          [0..<length example_filters]) = Failed ''b failed''"
    by (simp add: len upt3 fs example_filter_def ok_def)
  have events: "map (\<lambda>i. Init_channel_elem (name (example_filters ! i))
                   (grpc_channel_stack_element example_platform 4096 (of_nat i))
                   (channel_element_args example_channel_args 0 4096
                      (of_nat (length example_filters)) (of_nat i)))
          [0..<length example_filters] =
        [Init_channel_elem ''a'' 4304 (channel_element_args example_channel_args 0 4096 3 0),
         Init_channel_elem ''b'' 4320 (channel_element_args example_channel_args 0 4096 3 1),
         Init_channel_elem ''c'' 4336 (channel_element_args example_channel_args 0 4096 3 2)]"
    by (simp add: len upt3 fs ch_elems example_filter_def)
  have call_outcomes: "first_failure
       (map (\<lambda>i. init_call_elem (example_filters ! i)
                   (grpc_call_stack_element example_platform (call_stack example_call_args)
                      (of_nat i)) example_call_args)
          [0..<length example_filters]) = Failed ''b failed''"
    by (simp add: len upt3 fs example_filter_def ok_def)
  have call_events: "map (\<lambda>i. Init_call_elem (name (example_filters ! i))
                   (grpc_call_stack_element example_platform (call_stack example_call_args)
                      (of_nat i)) example_call_args)
          [0..<length example_filters] =
        [Init_call_elem ''a'' 8272 example_call_args,
         Init_call_elem ''b'' 8296 example_call_args,
         Init_call_elem ''c'' 8320 example_call_args]"
    by (simp add: len upt3 fs cs cl_elems example_filter_def)
  have regions: "map (channel_data_region example_platform 4096 example_filters)
                   [0..<length example_filters] = [4352, 4400, 4416]"
    using example_channel_data by (simp add: len)
  have tr0: "trace empty_state = []" by (simp add: empty_state_def)
  note inst = stack_init_runs_every_filter [where pf = example_platform
      and filters = example_filters and sz = 336 and stk = 4096 and initial_refs = 1
      and destroy = 0 and darg = 0 and cargs = example_channel_args and bb = 0
      and s = empty_state and elem_args = example_call_args and chstk = 4096
      and fs = example_filters and cds = "[4352, 4400, 4416]"]
  from inst [THEN conjunct1, rule_format, OF example_size region]
  obtain s' where
    init: "grpc_channel_stack_init example_platform 1 0 0 example_filters example_channel_args
             4096 0 empty_state = Inr (Failed ''b failed'', s')"
    and tr: "trace s' =
              [Member_Init On_destroy 4096, Member_Init Event_engine 4096,
               Member_Init Stats_plugin_group 4096,
               Init_channel_elem ''a'' 4304 (channel_element_args example_channel_args 0 4096 3 0),
               Init_channel_elem ''b'' 4320 (channel_element_args example_channel_args 0 4096 3 1),
               Init_channel_elem ''c'' 4336 (channel_element_args example_channel_args 0 4096 3 2),
               Member_Init Channelz_data_source 4096]"
    and at: "array_fits (sizeof_grpc_channel_element example_platform) (length example_filters)
               \<longrightarrow> channel_stack_at example_platform s' 4096 example_filters [4352, 4400, 4416]"
    unfolding outcomes events regions tr0 by auto
  from at example_array_fits(1)
  have at': "channel_stack_at example_platform s' 4096 example_filters [4352, 4400, 4416]"
    by blast
  from inst [where t = s', THEN conjunct2, rule_format, OF at' example_array_fits(2)]
  obtain t' where call:
    "grpc_call_stack_init example_platform 4096 1 0 0 example_call_args s' =
       Inr (Failed ''b failed'', t')"
    "trace t' = trace s' @
       [Init_call_elem ''a'' 8272 example_call_args,
        Init_call_elem ''b'' 8296 example_call_args,
        Init_call_elem ''c'' 8320 example_call_args]"
    unfolding call_outcomes call_events by auto
  from init tr at' call example_size region example_array_fits show ?thesis
    by blast
qed

subsection \<open>The two passes of call stack construction\<close>



subsection \<open>Destruction\<close>

text \<open>
  C4. On a channel stack that is laid out, \<open>grpc_channel_stack_destroy\<close> destroys the
  channelz data source, then calls the channel-destroy of every filter exactly once in
  forward order, then invokes the registered \<open>on_destroy\<close> callback and destroys it, and
  then releases the event engine handle and the stats plugin group. On a call stack that is
  laid out, \<open>grpc_call_stack_destroy\<close> calls the call-destroy of every filter exactly once in
  forward order; the last call gets the closure of the caller, every earlier one a null
  pointer.
\<close>

theorem stack_destroy_forward_order:
  "(channel_stack_at pf s stk fs cds \<longrightarrow> channel_stack_on_destroy s stk = Some cb \<longrightarrow>
      grpc_channel_stack_destroy pf stk s =
        Inr (s\<lparr>channel_stack_on_destroy := (channel_stack_on_destroy s)(stk := None),
               trace := trace s @
                 [Member_Destroy Channelz_data_source stk] @
                 map (\<lambda>i. Destroy_channel_elem (name (fs ! i))
                             (grpc_channel_stack_element pf stk (of_nat i))) [0..<length fs] @
                 [On_destroy_invoked stk cb, Member_Destroy On_destroy stk,
                  Member_Destroy Event_engine stk, Member_Destroy Stats_plugin_group stk]\<rparr>)) \<and>
   (call_stack_at pf t cstk gs cds' cls \<longrightarrow>
      grpc_call_stack_destroy pf cstk final_info then_schedule_closure t =
        Inr (t\<lparr>trace := trace t @
                 map (\<lambda>i. Destroy_call_elem (name (gs ! i))
                             (grpc_call_stack_element pf cstk (of_nat i)) final_info
                             (if Suc i = length gs then then_schedule_closure else nullptr))
                   [0..<length gs]\<rparr>))"
  using grpc_channel_stack_destroy_result [of pf s stk fs cds cb]
    grpc_call_stack_destroy_result [of pf t cstk gs cds' cls final_info then_schedule_closure]
  by blast

theorem stack_destroy_forward_order_witness:
  "\<exists>s t. channel_stack_at example_platform s 4096 example_filters [4352, 4400, 4416] \<and>
         channel_stack_on_destroy s 4096 = Some Empty_lambda \<and>
         call_stack_at example_platform t 8192 example_filters [4352, 4400, 4416]
           [8352, 8368, 8400] \<and>
         grpc_channel_stack_destroy example_platform 4096 s =
           Inr (s\<lparr>channel_stack_on_destroy := (channel_stack_on_destroy s)(4096 := None),
                  trace := trace s @
                    [Member_Destroy Channelz_data_source 4096,
                     Destroy_channel_elem ''a'' 4304, Destroy_channel_elem ''b'' 4320,
                     Destroy_channel_elem ''c'' 4336,
                     On_destroy_invoked 4096 Empty_lambda, Member_Destroy On_destroy 4096,
                     Member_Destroy Event_engine 4096,
                     Member_Destroy Stats_plugin_group 4096]\<rparr>) \<and>
         grpc_call_stack_destroy example_platform 8192 7 9 t =
           Inr (t\<lparr>trace := trace t @
                    [Destroy_call_elem ''a'' 8272 7 nullptr, Destroy_call_elem ''b'' 8296 7 nullptr,
                     Destroy_call_elem ''c'' 8320 7 9]\<rparr>)"
proof -
  obtain s where s: "channel_stack_at example_platform s 4096 example_filters [4352, 4400, 4416]"
    and cb: "channel_stack_on_destroy s 4096 = Some Empty_lambda"
    using example_channel_stack by blast
  obtain t where t: "call_stack_at example_platform t 8192 example_filters [4352, 4400, 4416]
                       [8352, 8368, 8400]"
    using example_call_stack by blast
  have len: "length example_filters = 3" by (simp add: example_filters_def)
  have upt3: "[0..<3] = [0, 1, 2]" by (simp add: upt_rec)
  have ch_elems: "grpc_channel_stack_element example_platform 4096 0 = 4304"
      "grpc_channel_stack_element example_platform 4096 1 = 4320"
      "grpc_channel_stack_element example_platform 4096 2 = 4336"
    using example_channel_elements by (simp_all add: upt3)
  have cl_elems: "grpc_call_stack_element example_platform 8192 0 = 8272"
      "grpc_call_stack_element example_platform 8192 1 = 8296"
      "grpc_call_stack_element example_platform 8192 2 = 8320"
    using example_call_elements by (simp_all add: upt3)
  have fs: "name (example_filters ! 0) = ''a''" "name (example_filters ! Suc 0) = ''b''"
      "name (example_filters ! 2) = ''c''"
    by (simp_all add: example_filters_def example_filter_def)
  have ev1: "map (\<lambda>i. Destroy_channel_elem (name (example_filters ! i))
                    (grpc_channel_stack_element example_platform 4096 (of_nat i)))
               [0..<length example_filters] =
             [Destroy_channel_elem ''a'' 4304, Destroy_channel_elem ''b'' 4320,
              Destroy_channel_elem ''c'' 4336]"
    by (simp add: len upt3 fs ch_elems)
  have ev2: "map (\<lambda>i. Destroy_call_elem (name (example_filters ! i))
                    (grpc_call_stack_element example_platform 8192 (of_nat i)) 7
                    (if Suc i = length example_filters then 9 else nullptr))
               [0..<length example_filters] =
             [Destroy_call_elem ''a'' 8272 7 nullptr, Destroy_call_elem ''b'' 8296 7 nullptr,
              Destroy_call_elem ''c'' 8320 7 9]"
    by (simp add: len upt3 fs cl_elems)
  note inst = stack_destroy_forward_order [where pf = example_platform and s = s and stk = 4096
      and fs = example_filters and cds = "[4352, 4400, 4416]" and cb = Empty_lambda and t = t
      and cstk = 8192 and gs = example_filters and cds' = "[4352, 4400, 4416]"
      and cls = "[8352, 8368, 8400]" and final_info = 7 and then_schedule_closure = 9]
  from inst [THEN conjunct1, rule_format, OF s cb]
  have d1: "grpc_channel_stack_destroy example_platform 4096 s =
           Inr (s\<lparr>channel_stack_on_destroy := (channel_stack_on_destroy s)(4096 := None),
                  trace := trace s @
                    [Member_Destroy Channelz_data_source 4096,
                     Destroy_channel_elem ''a'' 4304, Destroy_channel_elem ''b'' 4320,
                     Destroy_channel_elem ''c'' 4336,
                     On_destroy_invoked 4096 Empty_lambda, Member_Destroy On_destroy 4096,
                     Member_Destroy Event_engine 4096,
                     Member_Destroy Stats_plugin_group 4096]\<rparr>)"
    unfolding ev1 by simp
  from inst [THEN conjunct2, rule_format, OF t]
  have d2: "grpc_call_stack_destroy example_platform 8192 7 9 t =
           Inr (t\<lparr>trace := trace t @
                    [Destroy_call_elem ''a'' 8272 7 nullptr, Destroy_call_elem ''b'' 8296 7 nullptr,
                     Destroy_call_elem ''c'' 8320 7 9]\<rparr>)"
    unfolding ev2 by simp
  from s cb t d1 d2 show ?thesis by blast
qed

subsection \<open>Forwarding\<close>

lemma next_element_address:
  "grpc_call_stack_element pf stk i + sizeof_grpc_call_element pf =
     grpc_call_stack_element pf stk (i + 1)"
  "grpc_channel_stack_element pf stk i + sizeof_grpc_channel_element pf =
     grpc_channel_stack_element pf stk (i + 1)"
  by (simp_all add: grpc_call_stack_element_def grpc_channel_stack_element_def algebra_simps)

text \<open>
  C5. \<open>grpc_call_next_op\<close>, \<open>grpc_channel_next_op\<close> and \<open>grpc_channel_next_get_info\<close> on
  the element at index \<open>i\<close> of a stack dispatch to whatever lies at the address of index
  \<open>i + 1\<close>: the count of the stack is never consulted, and where that address holds no
  element the access is a fault. On a stack that is laid out, and for an index that is not the
  last one, the target is element \<open>i + 1\<close> of the same stack and the entry point called is
  that of its filter.
\<close>

theorem next_op_dispatches_to_next_element:
  "grpc_call_next_op pf (grpc_call_stack_element pf stk i) op s =
     (case call_elem_filter s (grpc_call_stack_element pf stk (i + 1)) of
        None \<Rightarrow> Inl (Invalid_access (grpc_call_stack_element pf stk (i + 1)))
      | Some f \<Rightarrow>
          Inr (log_event (Start_transport_stream_op_batch (name f)
                            (grpc_call_stack_element pf stk (i + 1)) op) s)) \<and>
   grpc_channel_next_op pf (grpc_channel_stack_element pf stk i) op s =
     (case channel_elem_filter s (grpc_channel_stack_element pf stk (i + 1)) of
        None \<Rightarrow> Inl (Invalid_access (grpc_channel_stack_element pf stk (i + 1)))
      | Some f \<Rightarrow>
          Inr (log_event (Start_transport_op (name f)
                            (grpc_channel_stack_element pf stk (i + 1)) op) s)) \<and>
   grpc_channel_next_get_info pf (grpc_channel_stack_element pf stk i) info s =
     (case channel_elem_filter s (grpc_channel_stack_element pf stk (i + 1)) of
        None \<Rightarrow> Inl (Invalid_access (grpc_channel_stack_element pf stk (i + 1)))
      | Some f \<Rightarrow>
          Inr (log_event (Get_channel_info (name f)
                            (grpc_channel_stack_element pf stk (i + 1)) info) s)) \<and>
   (call_stack_at pf s stk fs cds cls \<longrightarrow> Suc j < length fs \<longrightarrow>
      grpc_call_next_op pf (grpc_call_stack_element pf stk (of_nat j)) op s =
        Inr (log_event (Start_transport_stream_op_batch (name (fs ! Suc j))
                          (grpc_call_stack_element pf stk (of_nat (Suc j))) op) s)) \<and>
   (channel_stack_at pf s stk fs cds \<longrightarrow> Suc j < length fs \<longrightarrow>
      grpc_channel_next_op pf (grpc_channel_stack_element pf stk (of_nat j)) op s =
        Inr (log_event (Start_transport_op (name (fs ! Suc j))
                          (grpc_channel_stack_element pf stk (of_nat (Suc j))) op) s) \<and>
      grpc_channel_next_get_info pf (grpc_channel_stack_element pf stk (of_nat j)) info s =
        Inr (log_event (Get_channel_info (name (fs ! Suc j))
                          (grpc_channel_stack_element pf stk (of_nat (Suc j))) info) s))"
proof -
  have suc: "(of_nat j :: size_t) + 1 = of_nat (Suc j)" by simp
  have general:
    "grpc_call_next_op pf (grpc_call_stack_element pf stk i) op s =
       (case call_elem_filter s (grpc_call_stack_element pf stk (i + 1)) of
          None \<Rightarrow> Inl (Invalid_access (grpc_call_stack_element pf stk (i + 1)))
        | Some f \<Rightarrow>
            Inr (log_event (Start_transport_stream_op_batch (name f)
                              (grpc_call_stack_element pf stk (i + 1)) op) s))"
    "grpc_channel_next_op pf (grpc_channel_stack_element pf stk i) op s =
       (case channel_elem_filter s (grpc_channel_stack_element pf stk (i + 1)) of
          None \<Rightarrow> Inl (Invalid_access (grpc_channel_stack_element pf stk (i + 1)))
        | Some f \<Rightarrow>
            Inr (log_event (Start_transport_op (name f)
                              (grpc_channel_stack_element pf stk (i + 1)) op) s))"
    "grpc_channel_next_get_info pf (grpc_channel_stack_element pf stk i) info s =
       (case channel_elem_filter s (grpc_channel_stack_element pf stk (i + 1)) of
          None \<Rightarrow> Inl (Invalid_access (grpc_channel_stack_element pf stk (i + 1)))
        | Some f \<Rightarrow>
            Inr (log_event (Get_channel_info (name f)
                              (grpc_channel_stack_element pf stk (i + 1)) info) s))" for i
    by (simp_all add: grpc_call_next_op_def grpc_channel_next_op_def
        grpc_channel_next_get_info_def Let_def next_element_address)
  have call: "grpc_call_next_op pf (grpc_call_stack_element pf stk (of_nat j)) op s =
        Inr (log_event (Start_transport_stream_op_batch (name (fs ! Suc j))
                          (grpc_call_stack_element pf stk (of_nat (Suc j))) op) s)"
    if "call_stack_at pf s stk fs cds cls" "Suc j < length fs"
    using that by (simp add: general(1) suc call_stack_at_def del: of_nat_Suc)
  have chan: "grpc_channel_next_op pf (grpc_channel_stack_element pf stk (of_nat j)) op s =
        Inr (log_event (Start_transport_op (name (fs ! Suc j))
                          (grpc_channel_stack_element pf stk (of_nat (Suc j))) op) s) \<and>
      grpc_channel_next_get_info pf (grpc_channel_stack_element pf stk (of_nat j)) info s =
        Inr (log_event (Get_channel_info (name (fs ! Suc j))
                          (grpc_channel_stack_element pf stk (of_nat (Suc j))) info) s)"
    if "channel_stack_at pf s stk fs cds" "Suc j < length fs"
    using that by (simp add: general(2,3) suc channel_stack_at_def del: of_nat_Suc)
  from general [of i] call chan show ?thesis by blast
qed

theorem next_op_dispatches_to_next_element_witness:
  "\<exists>s t. channel_stack_at example_platform s 4096 example_filters [4352, 4400, 4416] \<and>
         call_stack_at example_platform t 8192 example_filters [4352, 4400, 4416]
           [8352, 8368, 8400] \<and>
         Suc 1 < length example_filters \<and>
         grpc_call_next_op example_platform 8296 5 t =
           Inr (log_event (Start_transport_stream_op_batch ''c'' 8320 5) t) \<and>
         grpc_channel_next_op example_platform 4320 5 s =
           Inr (log_event (Start_transport_op ''c'' 4336 5) s) \<and>
         grpc_channel_next_get_info example_platform 4320 6 s =
           Inr (log_event (Get_channel_info ''c'' 4336 6) s)"
proof -
  obtain s where s: "channel_stack_at example_platform s 4096 example_filters [4352, 4400, 4416]"
    using example_channel_stack by blast
  obtain t where t: "call_stack_at example_platform t 8192 example_filters [4352, 4400, 4416]
                       [8352, 8368, 8400]"
    using example_call_stack by blast
  have len: "Suc 1 < length example_filters" by (simp add: example_filters_def)
  have upt3: "[0..<3] = [0, 1, 2]" by (simp add: upt_rec)
  have ch_elems: "grpc_channel_stack_element example_platform 4096 1 = 4320"
      "grpc_channel_stack_element example_platform 4096 2 = 4336"
    using example_channel_elements by (simp_all add: upt3)
  have cl_elems: "grpc_call_stack_element example_platform 8192 1 = 8296"
      "grpc_call_stack_element example_platform 8192 2 = 8320"
    using example_call_elements by (simp_all add: upt3)
  have nm: "name (example_filters ! Suc (Suc 0)) = ''c''"
    by (simp add: example_filters_def example_filter_def)
  from next_op_dispatches_to_next_element [where pf = example_platform and stk = 8192
      and s = t and fs = example_filters and cds = "[4352, 4400, 4416]"
      and cls = "[8352, 8368, 8400]" and j = 1 and op = 5,
      THEN conjunct2, THEN conjunct2, THEN conjunct2, THEN conjunct1, rule_format, OF t len]
  have c: "grpc_call_next_op example_platform 8296 5 t =
           Inr (log_event (Start_transport_stream_op_batch ''c'' 8320 5) t)"
    by (simp add: cl_elems nm)
  from next_op_dispatches_to_next_element [where pf = example_platform and stk = 4096
      and s = s and fs = example_filters and cds = "[4352, 4400, 4416]"
      and j = 1 and op = 5 and info = 6,
      THEN conjunct2, THEN conjunct2, THEN conjunct2, THEN conjunct2, rule_format, OF s len]
  have d: "grpc_channel_next_op example_platform 4320 5 s =
           Inr (log_event (Start_transport_op ''c'' 4336 5) s) \<and>
         grpc_channel_next_get_info example_platform 4320 6 s =
           Inr (log_event (Get_channel_info ''c'' 4336 6) s)"
    by (simp add: ch_elems nm)
  from s t len c d show ?thesis by blast
qed

section \<open>Properties of the HPACK table\<close>

subsection \<open>The ring buffer\<close>

lemma mod_distinct:
  fixes a b m :: nat
  assumes "a < b" "b - a < m"
  shows "a mod m \<noteq> b mod m"
proof
  assume "a mod m = b mod m"
  then have "b mod m = a mod m" by simp
  moreover have "a \<le> b" using assms(1) by simp
  ultimately have "m dvd b - a"
    by (simp add: mod_eq_dvd_iff_nat)
  then have "m \<le> b - a" using assms(1) by (intro dvd_imp_le) simp_all
  with assms(2) show False by simp
qed

lemma length_live_entries [simp]: "length (live_entries rb) = unat (num_entries rb)"
  by (simp add: live_entries_def)

lemma cost_sum_simps [simp]:
  "cost_sum hc [] = 0"
  "cost_sum hc (m # ms) = transport_size hc m + cost_sum hc ms"
  "cost_sum hc (ms @ ms') = cost_sum hc ms + cost_sum hc ms'"
  by (simp_all add: cost_sum_def)

lemma cost_sum_overhead: "length ms * unat (kEntryOverhead hc) \<le> cost_sum hc ms"
  by (induction ms) (simp_all add: transport_size_def)

lemma PopOne_result:
  assumes wf: "ring_wf rb" and nowrap: "unat (first_entry rb) + unat (num_entries rb) < 2 ^ 32"
    and ne: "num_entries rb \<noteq> 0"
  shows "\<exists>rb'. MementoRingBuffer_PopOne rb = Inr (hd (live_entries rb), rb') \<and>
           ring_wf rb' \<and> live_entries rb' = tl (live_entries rb) \<and>
           max_entries rb' = max_entries rb \<and>
           unat (num_entries rb') = unat (num_entries rb) - 1 \<and>
           unat (first_entry rb') + unat (num_entries rb') =
             unat (first_entry rb) + unat (num_entries rb)"
proof -
  let ?f = "unat (first_entry rb)" and ?n = "unat (num_entries rb)"
  let ?m = "unat (max_entries rb)"
  have n: "0 < ?n" using ne by (simp add: unat_gt_0)
  have m: "0 < ?m" and len: "length (entries_vec rb) = ?m" and nm: "?n \<le> ?m"
    using wf n by (simp_all add: ring_wf_def)
  have n1: "unat (num_entries rb - 1) = ?n - 1" using ne by (simp add: unat_minus_one)
  have "?f + 1 < 2 ^ 32" using nowrap n by simp
  then have f1: "unat (first_entry rb + 1) = ?f + 1"
    by (simp add: unat_word_ariths)
  let ?rb' = "rb\<lparr>first_entry := first_entry rb + 1, num_entries := num_entries rb - 1\<rparr>"
  have pop: "MementoRingBuffer_PopOne rb = Inr (entries_vec rb ! (?f mod ?m), ?rb')"
    using ne m by (simp add: MementoRingBuffer_PopOne_def Let_def len word_gt_0)
  have hd: "hd (live_entries rb) = entries_vec rb ! (?f mod ?m)"
    using n by (simp add: live_entries_def hd_map upt_conv_Cons)
  have tl: "live_entries ?rb' = tl (live_entries rb)"
  proof -
    have "[0..<?n] = 0 # map Suc [0..<?n - 1]"
      using n by (metis Suc_pred' map_Suc_upt upt_conv_Cons)
    then show ?thesis
      by (simp add: live_entries_def f1 n1 map_tl)
  qed
  have "ring_wf ?rb'" using nm len by (simp add: ring_wf_def n1)
  with pop hd tl n show ?thesis
    by (intro exI [of _ ?rb']) (simp add: n1 f1)
qed

lemma Put_result:
  assumes wf: "ring_wf rb" and space: "unat (num_entries rb) < unat (max_entries rb)"
  shows "\<exists>rb'. MementoRingBuffer_Put rb m = Inr rb' \<and>
           ring_wf rb' \<and> live_entries rb' = live_entries rb @ [m] \<and>
           max_entries rb' = max_entries rb \<and> first_entry rb' = first_entry rb \<and>
           unat (num_entries rb') = unat (num_entries rb) + 1"
proof -
  let ?f = "unat (first_entry rb)" and ?n = "unat (num_entries rb)"
  let ?m = "unat (max_entries rb)"
  have len: "length (entries_vec rb) = ?m" using wf by (simp add: ring_wf_def)
  have m: "0 < ?m" using space by simp
  have lt: "num_entries rb < max_entries rb" using space by (simp add: word_less_nat_alt)
  have "?m < 2 ^ 32" using unsigned_less [of "max_entries rb"] by simp
  then have n1: "unat (num_entries rb + 1) = ?n + 1"
    using space by (simp add: unat_word_ariths)
  let ?idx = "(?f + ?n) mod ?m"
  let ?rb' = "rb\<lparr>entries_vec := (entries_vec rb)[?idx := m], num_entries := num_entries rb + 1\<rparr>"
  have put: "MementoRingBuffer_Put rb m = Inr ?rb'"
    using lt m by (simp add: MementoRingBuffer_Put_def Let_def len)
  have old: "(entries_vec rb)[?idx := m] ! ((?f + k) mod ?m) = entries_vec rb ! ((?f + k) mod ?m)"
    if "k < ?n" for k
  proof -
    have "(?f + k) mod ?m \<noteq> (?f + ?n) mod ?m"
      using that space by (intro mod_distinct) simp_all
    then show ?thesis by simp
  qed
  have new: "(entries_vec rb)[?idx := m] ! ?idx = m"
    using m by (simp add: len)
  have live: "live_entries ?rb' = live_entries rb @ [m]"
    using old new by (simp add: live_entries_def n1)
  have "ring_wf ?rb'" using wf space by (simp add: ring_wf_def n1)
  with put live show ?thesis
    by (intro exI [of _ ?rb']) (simp add: n1)
qed


subsection \<open>Eviction\<close>

declare evict_while.simps [simp del]

lemma evict_list_stops: "\<not> c [] \<Longrightarrow> \<not> c (evict_list c ms)"
  by (induction ms) simp_all

lemma evict_list_suffix: "\<exists>k. evict_list c ms = drop k ms"
proof (induction ms)
  case Nil
  then show ?case by simp
next
  case (Cons m ms)
  then obtain k where k: "evict_list c ms = drop k ms" by blast
  show ?case
  proof (cases "c (m # ms)")
    case True
    with k have "evict_list c (m # ms) = drop (Suc k) (m # ms)" by simp
    then show ?thesis by blast
  next
    case False
    then have "evict_list c (m # ms) = drop 0 (m # ms)" by simp
    then show ?thesis by blast
  qed
qed

lemma evict_list_all: "evict_list (\<lambda>ms. ms \<noteq> []) ms = []"
  by (induction ms) simp_all

lemma table_inv_mono: "table_inv hc n t \<Longrightarrow> n \<le> m \<Longrightarrow> table_inv hc m t"
  by (simp add: table_inv_def)

lemma EvictOne_result:
  assumes inv: "table_inv hc n t" and n: "n < 2 ^ 32"
    and ne: "num_entries (entries t) \<noteq> 0"
  shows "\<exists>t'. HPackTable_EvictOne hc t = Inr t' \<and> table_inv hc n t' \<and>
           live_entries (entries t') = tl (live_entries (entries t)) \<and>
           unat (num_entries (entries t')) = unat (num_entries (entries t)) - 1 \<and>
           current_table_bytes t' = current_table_bytes t \<and> max_bytes t' = max_bytes t \<and>
           static_mementos t' = static_mementos t"
proof -
  let ?rb = "entries t"
  have wf: "ring_wf ?rb"
    and pos: "unat (first_entry ?rb) + unat (num_entries ?rb) \<le> n"
    and mem: "unat (mem_used t) = cost_sum hc (live_entries ?rb)"
    and le: "mem_used t \<le> current_table_bytes t"
    and cap: "unat (EntriesForBytes hc (current_table_bytes t)) \<le> unat (max_entries ?rb)"
    using inv by (simp_all add: table_inv_def)
  have nowrap: "unat (first_entry ?rb) + unat (num_entries ?rb) < 2 ^ 32"
    using pos n by simp
  from PopOne_result [OF wf nowrap ne] obtain rb' where
    pop: "MementoRingBuffer_PopOne ?rb = Inr (hd (live_entries ?rb), rb')"
    and wf': "ring_wf rb'" and tl: "live_entries rb' = tl (live_entries ?rb)"
    and mx: "max_entries rb' = max_entries ?rb"
    and num: "unat (num_entries rb') = unat (num_entries ?rb) - 1"
    and pos': "unat (first_entry rb') + unat (num_entries rb') =
               unat (first_entry ?rb) + unat (num_entries ?rb)"
    by blast
  let ?c = "transport_size hc (hd (live_entries ?rb))"
  let ?t' = "t\<lparr>entries := rb', mem_used := mem_used t - of_nat ?c\<rparr>"
  have nonempty: "live_entries ?rb \<noteq> []"
    using ne by (metis length_live_entries list.size(3) unat_eq_zero)
  then have split: "cost_sum hc (live_entries ?rb) = ?c + cost_sum hc (tl (live_entries ?rb))"
    by (cases "live_entries ?rb") simp_all
  have c_le: "?c \<le> unat (mem_used t)" using mem split by simp
  have "unat (mem_used t) < 2 ^ 32" using unsigned_less [of "mem_used t"] by simp
  with c_le have c_small: "?c < 2 ^ 32" by simp
  then have uc: "unat (of_nat ?c :: uint32_t) = ?c" by (simp add: unat_of_nat)
  have "(of_nat ?c :: uint32_t) \<le> mem_used t"
    using c_le uc by (simp add: word_le_nat_alt)
  then have sub: "unat (mem_used t - of_nat ?c) = unat (mem_used t) - ?c"
    by (simp add: unat_sub uc)
  have mem': "unat (mem_used ?t') = cost_sum hc (live_entries rb')"
    using sub mem split tl by simp
  have le': "mem_used ?t' \<le> current_table_bytes ?t'"
    using le sub by (simp add: word_le_nat_alt)
  have ev: "HPackTable_EvictOne hc t = Inr ?t'"
    by (simp add: HPackTable_EvictOne_def pop)
  have "table_inv hc n ?t'"
    using wf' pos pos' mem' le' cap mx by (simp add: table_inv_def)
  with ev tl num show ?thesis
    by (intro exI [of _ ?t']) simp
qed

lemma evict_while_result:
  assumes inv: "table_inv hc n t" and n: "n < 2 ^ 32"
    and cond: "\<And>u. table_inv hc n u \<Longrightarrow> current_table_bytes u = current_table_bytes t \<Longrightarrow>
                 cond u = c (live_entries (entries u))"
    and nil: "\<not> c []"
  shows "\<exists>t'. evict_while hc cond t = Inr t' \<and> table_inv hc n t' \<and>
           live_entries (entries t') = evict_list c (live_entries (entries t)) \<and>
           current_table_bytes t' = current_table_bytes t \<and> max_bytes t' = max_bytes t \<and>
           static_mementos t' = static_mementos t"
  using inv cond
proof (induction k \<equiv> "unat (num_entries (entries t))" arbitrary: t)
  case 0
  then have "live_entries (entries t) = []"
    by (metis length_0_conv length_live_entries)
  moreover from this have "\<not> cond t" using "0.prems" nil by simp
  ultimately show ?case
    using "0.prems"(1) by (subst evict_while.simps) simp
next
  case (Suc k)
  show ?case
  proof (cases "cond t")
    case False
    then have "\<not> c (live_entries (entries t))" using Suc.prems by simp
    then have "evict_list c (live_entries (entries t)) = live_entries (entries t)"
      by (cases "live_entries (entries t)") simp_all
    with False Suc.prems(1) show ?thesis
      by (subst evict_while.simps) simp
  next
    case True
    then have c: "c (live_entries (entries t))" using Suc.prems by simp
    have ne: "num_entries (entries t) \<noteq> 0" using Suc.hyps(2) by auto
    from EvictOne_result [OF Suc.prems(1) n ne] obtain t1 where
      ev: "HPackTable_EvictOne hc t = Inr t1" and inv1: "table_inv hc n t1"
      and tl: "live_entries (entries t1) = tl (live_entries (entries t))"
      and num: "unat (num_entries (entries t1)) = unat (num_entries (entries t)) - 1"
      and frame: "current_table_bytes t1 = current_table_bytes t" "max_bytes t1 = max_bytes t"
        "static_mementos t1 = static_mementos t"
      by blast
    have k: "k = unat (num_entries (entries t1))" using num Suc.hyps(2) by simp
    have cond1: "cond u = c (live_entries (entries u))"
      if "table_inv hc n u" "current_table_bytes u = current_table_bytes t1" for u
      using that Suc.prems(2) frame by simp
    from Suc.hyps(1) [OF k inv1 cond1] obtain t' where
      res: "evict_while hc cond t1 = Inr t'" and inv': "table_inv hc n t'"
      and live': "live_entries (entries t') = evict_list c (live_entries (entries t1))"
      and frame': "current_table_bytes t' = current_table_bytes t1" "max_bytes t' = max_bytes t1"
        "static_mementos t' = static_mementos t1"
      by blast
    have "evict_list c (live_entries (entries t)) = evict_list c (tl (live_entries (entries t)))"
      using c nil by (cases "live_entries (entries t)") simp_all
    with live' tl have live: "live_entries (entries t') = evict_list c (live_entries (entries t))"
      by simp
    have "evict_while hc cond t = Inr t'"
      using True ev res by (subst evict_while.simps) simp
    with inv' live frame frame' show ?thesis by simp
  qed
qed

subsection \<open>The mutators keep the invariant\<close>

lemma entries_bound:
  assumes ov: "kEntryOverhead hc \<noteq> 0"
    and "k * unat (kEntryOverhead hc) \<le> unat b"
  shows "k \<le> unat (EntriesForBytes hc b)"
proof -
  have "0 < unat (kEntryOverhead hc)" using ov by (simp add: unat_gt_0)
  then have "k \<le> unat b div unat (kEntryOverhead hc)"
    using assms(2) by (simp add: less_eq_div_iff_mult_less_eq)
  then show ?thesis by (simp add: EntriesForBytes_def unat_div)
qed


lemma AddLargerThanCurrentTableSize_result:
  assumes inv: "table_inv hc n t" and n: "n < 2 ^ 32"
  shows "\<exists>t'. HPackTable_AddLargerThanCurrentTableSize hc t = Inr t' \<and> table_inv hc n t' \<and>
           live_entries (entries t') = [] \<and>
           current_table_bytes t' = current_table_bytes t \<and> max_bytes t' = max_bytes t \<and>
           static_mementos t' = static_mementos t"
proof -
  have cond: "(num_entries (entries u) \<noteq> 0) = (live_entries (entries u) \<noteq> [])" for u
    by (metis length_0_conv length_live_entries unat_eq_zero)
  have "\<exists>t'. evict_while hc (\<lambda>t. num_entries (entries t) \<noteq> 0) t = Inr t' \<and>
           table_inv hc n t' \<and>
           live_entries (entries t') = evict_list (\<lambda>ms. ms \<noteq> []) (live_entries (entries t)) \<and>
           current_table_bytes t' = current_table_bytes t \<and> max_bytes t' = max_bytes t \<and>
           static_mementos t' = static_mementos t"
    by (rule evict_while_result [OF inv n]) (simp_all add: cond)
  then show ?thesis
    by (simp add: HPackTable_AddLargerThanCurrentTableSize_def evict_list_all)
qed


lemma Add_result:
  assumes inv: "table_inv hc n t" and n: "n < 2 ^ 32" and ov: "kEntryOverhead hc \<noteq> 0"
  shows "\<exists>t'. HPackTable_Add hc md t =
                Inr (transport_size hc md \<le> unat (current_table_bytes t), t') \<and>
           table_inv hc (Suc n) t' \<and>
           live_entries (entries t') = live_after hc (Op_Add md) t \<and>
           current_table_bytes t' = current_table_bytes t \<and> max_bytes t' = max_bytes t \<and>
           static_mementos t' = static_mementos t"
proof (cases "transport_size hc md > unat (current_table_bytes t)")
  case True
  from AddLargerThanCurrentTableSize_result [OF inv n] obtain t' where
    "HPackTable_AddLargerThanCurrentTableSize hc t = Inr t'" "table_inv hc n t'"
    "live_entries (entries t') = []"
    "current_table_bytes t' = current_table_bytes t" "max_bytes t' = max_bytes t"
    "static_mementos t' = static_mementos t"
    by blast
  with True show ?thesis
    by (intro exI [of _ t']) (simp add: HPackTable_Add_def Let_def table_inv_mono not_le [symmetric])
next
  case False
  let ?cost = "transport_size hc md"
  let ?cur = "unat (current_table_bytes t)"
  have cond: "(unat (mem_used u) + ?cost > unat (current_table_bytes u)) =
              (cost_sum hc (live_entries (entries u)) + ?cost > ?cur)"
    if "table_inv hc n u" "current_table_bytes u = current_table_bytes t" for u
    using that by (simp add: table_inv_def)
  from evict_while_result [OF inv n,
      of "\<lambda>t. unat (mem_used t) + ?cost > unat (current_table_bytes t)"
         "\<lambda>ms. cost_sum hc ms + ?cost > ?cur"] cond False
  obtain t1 where
    res: "evict_while hc (\<lambda>t. unat (mem_used t) + ?cost > unat (current_table_bytes t)) t =
            Inr t1"
    and inv1: "table_inv hc n t1"
    and live: "live_entries (entries t1) =
               evict_list (\<lambda>ms. cost_sum hc ms + ?cost > ?cur) (live_entries (entries t))"
    and frame: "current_table_bytes t1 = current_table_bytes t" "max_bytes t1 = max_bytes t"
      "static_mementos t1 = static_mementos t"
    by auto
  have fits: "cost_sum hc (live_entries (entries t1)) + ?cost \<le> ?cur"
    using evict_list_stops [of "\<lambda>ms. cost_sum hc ms + ?cost > ?cur" "live_entries (entries t)"]
      live False
    by simp
  have wf1: "ring_wf (entries t1)"
    and pos1: "unat (first_entry (entries t1)) + unat (num_entries (entries t1)) \<le> n"
    and mem1: "unat (mem_used t1) = cost_sum hc (live_entries (entries t1))"
    and cap1: "unat (EntriesForBytes hc (current_table_bytes t1)) \<le>
               unat (max_entries (entries t1))"
    using inv1 by (simp_all add: table_inv_def)
  have "unat (kEntryOverhead hc) \<le> ?cost" by (simp add: transport_size_def)
  then have "Suc (unat (num_entries (entries t1))) * unat (kEntryOverhead hc) \<le> ?cur"
    using cost_sum_overhead [of "live_entries (entries t1)" hc] fits by simp
  then have "Suc (unat (num_entries (entries t1))) \<le>
             unat (EntriesForBytes hc (current_table_bytes t))"
    by (rule entries_bound [OF ov])
  then have space: "unat (num_entries (entries t1)) < unat (max_entries (entries t1))"
    using cap1 frame by simp
  from Put_result [OF wf1 space, of md] obtain rb where
    put: "MementoRingBuffer_Put (entries t1) md = Inr rb"
    and wf: "ring_wf rb" and live_rb: "live_entries rb = live_entries (entries t1) @ [md]"
    and mx: "max_entries rb = max_entries (entries t1)"
    and first: "first_entry rb = first_entry (entries t1)"
    and num: "unat (num_entries rb) = unat (num_entries (entries t1)) + 1"
    by blast
  let ?t' = "t1\<lparr>mem_used := mem_used t1 + of_nat ?cost, entries := rb\<rparr>"
  have "?cur < 2 ^ 32" using unsigned_less [of "current_table_bytes t"] by simp
  with fits have small: "unat (mem_used t1) + ?cost < 2 ^ 32" "?cost < 2 ^ 32"
    using mem1 by simp_all
  then have uc: "unat (of_nat ?cost :: uint32_t) = ?cost" by (simp add: unat_of_nat)
  have mem': "unat (mem_used t1 + of_nat ?cost) = unat (mem_used t1) + ?cost"
    using small uc by (simp add: unat_word_ariths)
  have le': "mem_used t1 + of_nat ?cost \<le> current_table_bytes t"
    using mem' mem1 fits by (simp add: word_le_nat_alt)
  have "table_inv hc (Suc n) ?t'"
    using wf live_rb mx first num pos1 mem' mem1 le' cap1 frame by (simp add: table_inv_def)
  moreover have "HPackTable_Add hc md t = Inr (True, ?t')"
    using False by (simp add: HPackTable_Add_def Let_def res put)
  ultimately show ?thesis
    using False live live_rb frame by (intro exI [of _ ?t']) (simp add: not_less)
qed

subsection \<open>Sequences of mutations\<close>




lemma new_table_inv:
  assumes "constants_ok hc"
  shows "table_inv hc 0 (HPackTable_new hc statics)"
    and "current_table_bytes (HPackTable_new hc statics) \<le> max_bytes (HPackTable_new hc statics)"
  using assms
  by (simp_all add: table_inv_def HPackTable_new_def MementoRingBuffer_new_def ring_wf_def
      live_entries_def constants_ok_def)




lemma example_constants_ok: "constants_ok example_hpack_constants"
  by (simp add: constants_ok_def example_hpack_constants_def EntriesForBytes_def)



subsection \<open>Lookup\<close>

lemma ring_Lookup_nat:
  "MementoRingBuffer_Lookup rb index =
     (if unat index < unat (num_entries rb)
      then (if (unat (first_entry rb) + (unat (num_entries rb) - Suc (unat index))) mod
                 unat (max_entries rb) < length (entries_vec rb)
            then Inr (Some (entries_vec rb !
                   ((unat (first_entry rb) + (unat (num_entries rb) - Suc (unat index))) mod
                      unat (max_entries rb))))
            else Inl Out_of_bounds_access)
      else Inr None)"
proof -
  define f n i where "f = unat (first_entry rb)" and "n = unat (num_entries rb)"
    and "i = unat index"
  have eq: "MementoRingBuffer_Lookup rb index =
     (let pos = int f + int n - 1 - int i
      in if \<not> (int f \<le> pos \<and> pos < int f + int n) then Inr None
         else
           let offset = nat pos mod unat (max_entries rb)
           in if offset < length (entries_vec rb) then Inr (Some (entries_vec rb ! offset))
              else Inl Out_of_bounds_access)"
    unfolding MementoRingBuffer_Lookup_def f_def n_def i_def ..
  show ?thesis
  proof (cases "i < n")
    case True
    then have "int f \<le> int f + int n - 1 - int i" "int f + int n - 1 - int i < int f + int n"
      by simp_all
    moreover have "nat (int f + int n - 1 - int i) = f + (n - Suc i)"
      using True by simp
    ultimately show ?thesis
      using True unfolding eq Let_def by (simp add: f_def n_def i_def)
  next
    case False
    then have "\<not> int f \<le> int f + int n - 1 - int i" by simp
    then show ?thesis
      using False unfolding eq Let_def by (simp add: f_def n_def i_def)
  qed
qed

lemma ring_Lookup_live:
  assumes wf: "ring_wf rb" and i: "unat i < unat (num_entries rb)"
  shows "MementoRingBuffer_Lookup rb i = Inr (Some (rev (live_entries rb) ! unat i))"
proof -
  let ?f = "unat (first_entry rb)" and ?n = "unat (num_entries rb)"
  let ?m = "unat (max_entries rb)"
  have len: "length (entries_vec rb) = ?m" and nm: "?n \<le> ?m"
    using wf by (simp_all add: ring_wf_def)
  have m: "0 < ?m" using i nm by simp
  have "rev (live_entries rb) ! unat i = live_entries rb ! (?n - Suc (unat i))"
    using i by (simp add: rev_nth)
  also have "\<dots> = entries_vec rb ! ((?f + (?n - Suc (unat i))) mod ?m)"
    using i by (simp add: live_entries_def)
  finally have nth: "rev (live_entries rb) ! unat i =
                     entries_vec rb ! ((?f + (?n - Suc (unat i))) mod ?m)" .
  show ?thesis using i m by (simp add: ring_Lookup_nat len nth)
qed



lemma Lookup_static:
  assumes "1 \<le> index" "index \<le> kLastStaticEntry hc"
  shows "HPackTable_Lookup hc t index = Inr (Some (static_mementos t (unat index - 1)))"
proof -
  have ne: "index \<noteq> 0" using assms(1) by auto
  then have u: "unat (index - 1) = unat index - 1" by (simp add: unat_minus_one)
  have "0 < unat index" using ne by (simp add: unat_gt_0)
  moreover have "unat index \<le> unat (kLastStaticEntry hc)"
    using assms(2) by (simp add: word_le_nat_alt)
  ultimately have "unat index - 1 < unat (kLastStaticEntry hc)" by simp
  with assms(2) show ?thesis by (simp add: HPackTable_Lookup_def u)
qed

lemma Lookup_dynamic:
  assumes "kLastStaticEntry hc < index"
  shows "HPackTable_Lookup hc t index =
           MementoRingBuffer_Lookup (entries t) (index - (kLastStaticEntry hc + 1))"
proof -
  have "\<not> index \<le> kLastStaticEntry hc" using assms by simp
  then show ?thesis
    by (simp add: HPackTable_Lookup_def HPackTable_LookupDynamic_def Let_def)
qed

text \<open>
  C6. \<open>HPackTable::Lookup\<close> resolves an index from 1 to \<open>kLastStaticEntry\<close> to the static
  memento at position \<open>index - 1\<close>, whatever the dynamic table holds, and an index above
  \<open>kLastStaticEntry\<close> to the ring buffer at offset \<open>index - (kLastStaticEntry + 1)\<close>. In a
  well-formed ring buffer, offset \<open>k\<close> is the k-th most recent live entry; an entry that
  \<open>Add\<close> has just retained is found at the first dynamic index, \<open>kLastStaticEntry + 1\<close>.
\<close>

theorem lookup_index_space:
  "(1 \<le> index \<longrightarrow> index \<le> kLastStaticEntry hc \<longrightarrow>
      HPackTable_Lookup hc t index = Inr (Some (static_mementos t (unat index - 1)))) \<and>
   (kLastStaticEntry hc < index \<longrightarrow>
      HPackTable_Lookup hc t index =
        MementoRingBuffer_Lookup (entries t) (index - (kLastStaticEntry hc + 1))) \<and>
   (ring_wf (entries t) \<longrightarrow> kLastStaticEntry hc < index \<longrightarrow>
    unat (index - (kLastStaticEntry hc + 1)) < unat (num_entries (entries t)) \<longrightarrow>
      HPackTable_Lookup hc t index =
        Inr (Some (rev (live_entries (entries t)) ! unat (index - (kLastStaticEntry hc + 1))))) \<and>
   (table_inv hc n t \<longrightarrow> n < 2 ^ 32 \<longrightarrow> kEntryOverhead hc \<noteq> 0 \<longrightarrow>
    kLastStaticEntry hc < kLastStaticEntry hc + 1 \<longrightarrow>
    transport_size hc md \<le> unat (current_table_bytes t) \<longrightarrow>
      (\<exists>t'. HPackTable_Add hc md t = Inr (True, t') \<and>
            HPackTable_Lookup hc t' (kLastStaticEntry hc + 1) = Inr (Some md)))"
proof (intro conjI impI)
  assume "1 \<le> index" "index \<le> kLastStaticEntry hc"
  then show "HPackTable_Lookup hc t index = Inr (Some (static_mementos t (unat index - 1)))"
    by (rule Lookup_static)
next
  assume "kLastStaticEntry hc < index"
  then show "HPackTable_Lookup hc t index =
        MementoRingBuffer_Lookup (entries t) (index - (kLastStaticEntry hc + 1))"
    by (rule Lookup_dynamic)
next
  assume "ring_wf (entries t)" "kLastStaticEntry hc < index"
    "unat (index - (kLastStaticEntry hc + 1)) < unat (num_entries (entries t))"
  then show "HPackTable_Lookup hc t index =
        Inr (Some (rev (live_entries (entries t)) ! unat (index - (kLastStaticEntry hc + 1))))"
    by (simp add: Lookup_dynamic ring_Lookup_live)
next
  assume inv: "table_inv hc n t" and n: "n < 2 ^ 32" and ov: "kEntryOverhead hc \<noteq> 0"
    and k: "kLastStaticEntry hc < kLastStaticEntry hc + 1"
    and cost: "transport_size hc md \<le> unat (current_table_bytes t)"
  from Add_result [OF inv n ov, of md] cost obtain t' where
    add: "HPackTable_Add hc md t = Inr (True, t')" and inv': "table_inv hc (Suc n) t'"
    and live: "live_entries (entries t') =
               evict_list (\<lambda>ms. cost_sum hc ms + transport_size hc md >
                                 unat (current_table_bytes t)) (live_entries (entries t)) @ [md]"
    by auto
  have wf: "ring_wf (entries t')" using inv' by (simp add: table_inv_def)
  have "length (live_entries (entries t')) \<noteq> 0" using live by simp
  then have num: "unat (0 :: uint32_t) < unat (num_entries (entries t'))" by simp
  have "HPackTable_Lookup hc t' (kLastStaticEntry hc + 1) =
          MementoRingBuffer_Lookup (entries t') 0"
    using Lookup_dynamic [OF k, of t'] by simp
  also have "\<dots> = Inr (Some (rev (live_entries (entries t')) ! 0))"
    using ring_Lookup_live [OF wf num] by simp
  also have "rev (live_entries (entries t')) ! 0 = md" by (simp add: live)
  finally show "\<exists>t'. HPackTable_Add hc md t = Inr (True, t') \<and>
            HPackTable_Lookup hc t' (kLastStaticEntry hc + 1) = Inr (Some md)"
    using add by blast
qed

theorem lookup_index_space_witness:
  "(1 :: uint32_t) \<le> 2 \<and> 2 \<le> kLastStaticEntry example_hpack_constants \<and>
   HPackTable_Lookup example_hpack_constants example_table 2 =
     Inr (Some (example_static_mementos 1)) \<and>
   kLastStaticEntry example_hpack_constants < 62 \<and>
   HPackTable_Lookup example_hpack_constants example_table 62 =
     MementoRingBuffer_Lookup (entries example_table) 0 \<and>
   table_inv example_hpack_constants 0 example_table \<and>
   kEntryOverhead example_hpack_constants \<noteq> 0 \<and>
   transport_size example_hpack_constants example_memento \<le>
     unat (current_table_bytes example_table) \<and>
   (\<exists>t'. HPackTable_Add example_hpack_constants example_memento example_table = Inr (True, t') \<and>
         HPackTable_Lookup example_hpack_constants t' 62 = Inr (Some example_memento) \<and>
         ring_wf (entries t') \<and>
         unat (62 - (kLastStaticEntry example_hpack_constants + 1)) <
           unat (num_entries (entries t')) \<and>
         HPackTable_Lookup example_hpack_constants t' 62 =
           Inr (Some (rev (live_entries (entries t')) !
                        unat (62 - (kLastStaticEntry example_hpack_constants + 1)))))"
proof -
  have k: "kLastStaticEntry example_hpack_constants = 61"
    and ov: "kEntryOverhead example_hpack_constants \<noteq> 0"
    by (simp_all add: example_hpack_constants_def)
  have lt: "kLastStaticEntry example_hpack_constants < 62"
    "kLastStaticEntry example_hpack_constants < kLastStaticEntry example_hpack_constants + 1"
    "(1 :: uint32_t) \<le> 2" "2 \<le> kLastStaticEntry example_hpack_constants"
    by (simp_all add: k)
  have inv: "table_inv example_hpack_constants 0 example_table"
    unfolding example_table_def by (rule new_table_inv(1) [OF example_constants_ok])
  have cost: "transport_size example_hpack_constants example_memento \<le>
              unat (current_table_bytes example_table)"
    by (simp add: transport_size_def example_memento_def example_table_def HPackTable_new_def
        example_hpack_constants_def)
  have zero: "(0 :: nat) < 2 ^ 32" by simp
  note inst = lookup_index_space [where hc = example_hpack_constants and n = 0
      and md = example_memento]
  from inst [where index = 2 and t = example_table, THEN conjunct1, rule_format, OF lt(3,4)]
  have a: "HPackTable_Lookup example_hpack_constants example_table 2 =
           Inr (Some (example_static_mementos 1))"
    by (simp add: example_table_def HPackTable_new_def)
  from inst [where index = 62 and t = example_table, THEN conjunct2, THEN conjunct1,
      rule_format, OF lt(1)]
  have b: "HPackTable_Lookup example_hpack_constants example_table 62 =
           MementoRingBuffer_Lookup (entries example_table) 0"
    by (simp add: k)
  from inst [where index = 62 and t = example_table, THEN conjunct2, THEN conjunct2,
      THEN conjunct2, rule_format, OF inv zero ov lt(2) cost]
  obtain t' where
    add: "HPackTable_Add example_hpack_constants example_memento example_table = Inr (True, t')"
    and found: "HPackTable_Lookup example_hpack_constants t' 62 = Inr (Some example_memento)"
    by (auto simp: k)
  from Add_result [OF inv zero ov, of example_memento] add
  have inv': "table_inv example_hpack_constants (Suc 0) t'"
    and live: "live_entries (entries t') =
               live_after example_hpack_constants (Op_Add example_memento) example_table"
    by auto
  have wf: "ring_wf (entries t')" using inv' by (simp add: table_inv_def)
  have "length (live_entries (entries t')) \<noteq> 0" using live cost by simp
  then have num: "unat (62 - (kLastStaticEntry example_hpack_constants + 1)) <
                  unat (num_entries (entries t'))"
    by (simp add: k)
  from inst [where index = 62 and t = t', THEN conjunct2, THEN conjunct2, THEN conjunct1,
      rule_format, OF wf lt(1) num]
  have c: "HPackTable_Lookup example_hpack_constants t' 62 =
           Inr (Some (rev (live_entries (entries t')) !
                        unat (62 - (kLastStaticEntry example_hpack_constants + 1))))" .
  from lt a b inv ov cost add found wf num c show ?thesis by blast
qed




end
